theory Spec2Isabelle
  imports Complex_Main
begin

section \<open>MockService: a shallow embedding of \<open>src/MockService.ts\<close>\<close>

text \<open>
  The service is a TypeScript class with mutable private fields. Each method becomes a
  function from the service state (a record of the fields) to a result and the new
  state. A \<open>TypeError\<close> (reading a property of \<open>undefined\<close>) and a \<open>RangeError\<close>
  (\<open>new Array\<close> of a length that is negative or above \<open>2 ^ 32 - 1\<close>) are values of the
  type \<open>error\<close>; a method that can throw returns \<open>error + 'a\<close>. The state a caller would find after a throw is not
  modelled: \<open>Inl\<close> carries the error only.

  Numbers. Counters, indices and the identifier are JavaScript numbers that hold
  non-negative integers far below \<open>2 ^ 53\<close>; they are \<open>nat\<close>, and so are the
  configured \<open>trackedAssets\<close> and \<open>pageSize\<close>: a configuration with a negative or
  fractional count is not modelled, and the sums and products of the counts are exact,
  as they are in the program below \<open>2 ^ 53\<close> (see \<open>exactPaging\<close>). An array is a list
  of any length: the limit of \<open>2 ^ 32 - 1\<close> elements is modelled for \<open>new Array\<close> and for
  the indices \<open>next\<close> writes at, and not for \<open>push\<close>, which reaches it after more than
  \<open>7 * 10 ^ 8\<close> tracks. The limits of an engine (memory, the length of a string) are not
  modelled. Coordinates, distances, \<open>distStep\<close> and
  the speed are \<open>real\<close>: the model computes with exact reals where the program rounds
  to IEEE doubles. The two places where the program divides by a number that can be
  zero are written out: \<open>0 / 0\<close> in the track quota (see \<open>numOfTracksPerFeature\<close>) and
  the division by the segment length in the interpolation (see \<open>interpolate\<close>). A
  vertex is a pair of numbers; an input vertex with fewer than two numbers is not
  modelled.

  The first section is the program, method by method. The second one has the notions
  the properties are stated with and the inputs of the examples, the third one the
  lemmas, and the last one the properties, C1 to C10.
\<close>

subsection \<open>Data\<close>

type_synonym vertex = "real \<times> real"

type_synonym path = "vertex list"

text \<open>A \<open>Polyline\<close> is its \<open>paths\<close> array.\<close>

type_synonym polyline = "path list"

text \<open>
  A \<open>FeatureSet<Polyline>\<close> is its \<open>features\<close> array, each feature given by its
  \<open>geometry\<close>: the attributes of an input feature are never read.
\<close>

type_synonym featureSet = "polyline list"

datatype error = TypeError | RangeError

record MockServiceConfig =
  trackedAssets :: nat
  pageSize :: nat
  distStep :: real

text \<open>
  \<open>_trackInfos\<close> is a flat array of numbers, six per track, written six at a time by
  \<open>push\<close> and read at \<open>i\<close>, \<open>i + 1\<close>, ..., \<open>i + 5\<close> for \<open>i\<close> a multiple of six. The
  model keeps one record per track; the fields are the six slots in order.
\<close>

record trackInfo =
  t_featureIndex :: nat
  t_pathIndex :: nat
  t_vertexIndex :: nat
  t_distanceToNextVertex :: real
  t_accumulatedDistance :: real
  t_speed :: real

text \<open>
  A \<open>PointFeature\<close>: the five attributes and the geometry. A coordinate is \<open>None\<close> when
  the program stored a value that is not a finite number (\<open>NaN\<close> or an infinity);
  \<open>JSON.stringify\<close> writes such a value as \<open>null\<close>.
\<close>

record PointFeature =
  attr_OBJECTID :: nat
  attr_TRACKID :: nat
  attr_HEADING :: real
  attr_TYPE :: int
  attr_ACTIVE :: nat
  geometry_x :: "real option"
  geometry_y :: "real option"

text \<open>
  The fields of the class. \<open>polylines\<close> is \<open>None\<close> until \<open>initialize\<close> has stored the
  input. \<open>Math.random\<close> is the sequence \<open>randomSource\<close> of the numbers it is going to
  return, read at \<open>randomPos\<close>.
\<close>

record service =
  idCounter :: nat
  page :: nat
  config :: MockServiceConfig
  lastObservations :: "PointFeature list"
  trackInfos :: "trackInfo list"
  polylines :: "featureSet option"
  numCyclesSinceLastActiveUpdate :: nat
  randomSource :: "nat \<Rightarrow> real"
  randomPos :: nat

definition NumCyclesBetweenActiveUpdate :: nat where
  "NumCyclesBetweenActiveUpdate = 400"

definition defaults :: MockServiceConfig where
  "defaults = \<lparr>trackedAssets = 10000, pageSize = 10000, distStep = 0.01 * 2\<rparr>"

text \<open>The state after \<open>new MockService(cfg)\<close>, with \<open>cfg\<close> the merged configuration.\<close>

definition newService :: "MockServiceConfig \<Rightarrow> (nat \<Rightarrow> real) \<Rightarrow> service" where
  "newService cfg rnd =
     \<lparr>idCounter = 1, page = 0, config = cfg, lastObservations = [], trackInfos = [],
      polylines = None, numCyclesSinceLastActiveUpdate = 0,
      randomSource = rnd, randomPos = 0\<rparr>"

text \<open>Reading \<open>xs[i]\<close>: \<open>None\<close> is \<open>undefined\<close>.\<close>

definition nth_opt :: "'a list \<Rightarrow> nat \<Rightarrow> 'a option" where
  "nth_opt xs i = (if i < length xs then Some (xs ! i) else None)"

subsection \<open>Small helpers of the class\<close>

definition random :: "service \<Rightarrow> real \<times> service" where
  "random s = (randomSource s (randomPos s), s\<lparr>randomPos := randomPos s + 1\<rparr>)"

definition getIsActive :: "service \<Rightarrow> nat \<times> service" where
  "getIsActive s = (case random s of (r, s') \<Rightarrow> (if r < 0.05 then 1 else 0, s'))"

text \<open>\<open>Math.atan2(dy, dx)\<close> on reals (no signed zero).\<close>

definition atan2 :: "real \<Rightarrow> real \<Rightarrow> real" where
  "atan2 dy dx =
     (if 0 < dx then arctan (dy / dx)
      else if dx < 0 then (if 0 \<le> dy then arctan (dy / dx) + pi else arctan (dy / dx) - pi)
      else if 0 < dy then pi / 2
      else if dy < 0 then - (pi / 2)
      else 0)"

definition getAzimuth :: "real \<Rightarrow> real \<Rightarrow> real" where
  "getAzimuth dx dy = atan2 dy dx - pi / 2"

definition createId :: "service \<Rightarrow> nat \<times> service" where
  "createId s = (idCounter s, s\<lparr>idCounter := (idCounter s + 1) mod 0xfffffffe\<rparr>)"

definition nextPage :: "service \<Rightarrow> nat \<times> service" where
  "nextPage s =
     (if (page s + 1) * pageSize (config s) \<ge> trackedAssets (config s)
      then (page s, s\<lparr>page := 0\<rparr>)
      else (page s, s\<lparr>page := page s + 1\<rparr>))"

definition getNumberOfVertices :: "polyline \<Rightarrow> nat" where
  "getNumberOfVertices polyline = foldl (\<lambda>sum path. sum + length path) 0 polyline"

definition sumPolylineVertices :: "featureSet \<Rightarrow> nat" where
  "sumPolylineVertices features =
     foldl (\<lambda>sum feature. foldl (\<lambda>sum path. sum + length path) sum feature) 0 features"

text \<open>
  \<open>_getNextTrackStart\<close>: \<open>Inr None\<close> is the \<open>null\<close> it returns. \<open>path.length - 1\<close> is
  \<open>-1\<close> for an empty path, so the comparison is on \<open>int\<close>.
\<close>

definition getNextTrackStart ::
  "polyline \<Rightarrow> nat \<Rightarrow> nat \<Rightarrow> nat \<Rightarrow> error + (nat \<times> nat) option" where
  "getNextTrackStart polyline vertexNumBetweenTracks currentPath currentVertex =
     (case nth_opt polyline currentPath of
        None \<Rightarrow> Inl TypeError
      | Some path \<Rightarrow>
          if int (vertexNumBetweenTracks + currentVertex) < int (length path) - 1
          then Inr (Some (currentPath, vertexNumBetweenTracks + currentVertex))
          else if currentPath + 1 \<ge> length polyline \<or> length (polyline ! (currentPath + 1)) < 2
          then Inr None
          else Inr (Some (currentPath + 1, 0)))"

subsection \<open>The Track Allocator: \<open>_initialize\<close>\<close>

text \<open>
  \<open>Math.max(Math.floor(numOfTrackedAssets * numberOfVertices / vertexSum), 1)\<close>.
  \<open>vertexSum\<close> is the sum over all features, so it is 0 only when \<open>numberOfVertices\<close>
  is 0 too; the quotient is then \<open>0 / 0 = NaN\<close>, \<open>Math.floor\<close> and \<open>Math.max\<close> keep the
  \<open>NaN\<close>, and the loop guard \<open>numTrack < NaN\<close> is false: the loop runs as often as
  with the quota 0.
\<close>

definition numOfTracksPerFeature :: "nat \<Rightarrow> nat \<Rightarrow> nat \<Rightarrow> nat" where
  "numOfTracksPerFeature numOfTrackedAssets numberOfVertices vertexSum =
     (if vertexSum = 0 then 0
      else max (nat \<lfloor>real (numOfTrackedAssets * numberOfVertices) / real vertexSum\<rfloor>) 1)"

text \<open>\<open>Math.floor(0.8 * numberOfVertices / numOfTracksPerFeature)\<close>.\<close>

definition vertexNumBetweenTracks :: "nat \<Rightarrow> nat \<Rightarrow> nat" where
  "vertexNumBetweenTracks numberOfVertices numOfTracks =
     nat \<lfloor>0.8 * real numberOfVertices / real numOfTracks\<rfloor>"

text \<open>
  One placement (the body of the \<open>for\<close> loop up to the push of the observation). The
  three reads that can throw come before the first write.
\<close>

definition placeTrack ::
  "nat \<Rightarrow> polyline \<Rightarrow> nat \<Rightarrow> nat \<Rightarrow> nat \<Rightarrow> service \<Rightarrow> error + service" where
  "placeTrack featureIndex polyline currentPath currentVertex trackIndex s =
     (case nth_opt polyline currentPath of
        None \<Rightarrow> Inl TypeError
      | Some path \<Rightarrow>
          (case nth_opt path currentVertex of
             None \<Rightarrow> Inl TypeError
           | Some (x0, y0) \<Rightarrow>
               (case nth_opt path (currentVertex + 1) of
                  None \<Rightarrow> Inl TypeError
                | Some (x1, y1) \<Rightarrow>
                    (let dist = sqrt ((x1 - x0) * (x1 - x0) + (y1 - y0) * (y1 - y0));
                         spd = dist * distStep (config s);
                         s1 = s\<lparr>trackInfos := trackInfos s @
                                [\<lparr>t_featureIndex = featureIndex, t_pathIndex = currentPath,
                                  t_vertexIndex = currentVertex, t_distanceToNextVertex = dist,
                                  t_accumulatedDistance = 0, t_speed = spd\<rparr>]\<rparr>;
                         (oid, s2) = createId s1;
                         (r, s3) = random s2;
                         (active, s4) = getIsActive s3
                     in Inr (s4\<lparr>lastObservations := lastObservations s4 @
                                [\<lparr>attr_OBJECTID = oid, attr_TRACKID = trackIndex,
                                  attr_HEADING = getAzimuth (x1 - x0) (y1 - y0),
                                  attr_TYPE = round (r * 5), attr_ACTIVE = active,
                                  geometry_x = Some x0, geometry_y = Some y0\<rparr>]\<rparr>)))))"

text \<open>
  The \<open>for\<close> loop over \<open>numTrack\<close>, from the current start position. It returns the
  \<open>trackIndex\<close> it has reached with the state.
\<close>

function placeTracks ::
  "nat \<Rightarrow> polyline \<Rightarrow> nat \<Rightarrow> nat \<Rightarrow> nat \<Rightarrow> nat \<Rightarrow> nat \<Rightarrow> nat \<Rightarrow> service
     \<Rightarrow> error + (nat \<times> service)" where
  "placeTracks featureIndex polyline numOfTracks spacing numTrack currentPath currentVertex
       trackIndex s =
     (if numTrack < numOfTracks then
        (case placeTrack featureIndex polyline currentPath currentVertex trackIndex s of
           Inl e \<Rightarrow> Inl e
         | Inr s' \<Rightarrow>
             (case getNextTrackStart polyline spacing currentPath currentVertex of
                Inl e \<Rightarrow> Inl e
              | Inr None \<Rightarrow> Inr (trackIndex + 1, s')
              | Inr (Some (nextPath, nextVertex)) \<Rightarrow>
                  placeTracks featureIndex polyline numOfTracks spacing (numTrack + 1)
                    nextPath nextVertex (trackIndex + 1) s'))
      else Inr (trackIndex, s))"
  by pat_completeness auto

termination
  by (relation "measure (\<lambda>(featureIndex, polyline, numOfTracks, spacing, numTrack, rest).
        numOfTracks - numTrack)") auto

declare placeTracks.simps [simp del]

text \<open>
  The \<open>while\<close> loop over the features. A missing feature ends it (the program logs the
  two indices and breaks).
\<close>

function allocate ::
  "featureSet \<Rightarrow> nat \<Rightarrow> nat \<Rightarrow> nat \<Rightarrow> nat \<Rightarrow> service \<Rightarrow> error + service" where
  "allocate features vertexSum numOfTrackedAssets featureIndex trackIndex s =
     (if trackIndex < numOfTrackedAssets then
        (case nth_opt features featureIndex of
           None \<Rightarrow> Inr s
         | Some polyline \<Rightarrow>
             (let numberOfVertices = getNumberOfVertices polyline;
                  numOfTracks =
                    numOfTracksPerFeature numOfTrackedAssets numberOfVertices vertexSum;
                  spacing = vertexNumBetweenTracks numberOfVertices numOfTracks
              in case placeTracks featureIndex polyline numOfTracks spacing 0 0 0 trackIndex s of
                   Inl e \<Rightarrow> Inl e
                 | Inr (trackIndex', s') \<Rightarrow>
                     allocate features vertexSum numOfTrackedAssets (featureIndex + 1)
                       trackIndex' s'))
      else Inr s)"
  by pat_completeness auto

termination
  by (relation "measure (\<lambda>(features, vertexSum, numOfTrackedAssets, featureIndex, rest).
        length features - featureIndex)")
     (auto simp: nth_opt_def split: if_splits)

declare allocate.simps [simp del]

definition private_initialize :: "featureSet \<Rightarrow> service \<Rightarrow> error + service" where
  "private_initialize features s =
     allocate features (sumPolylineVertices features) (trackedAssets (config s)) 0 0 s"

definition initialize :: "featureSet \<Rightarrow> service \<Rightarrow> error + service" where
  "initialize features s = private_initialize features (s\<lparr>polylines := Some features\<rparr>)"

subsection \<open>The Track Simulator: \<open>_updatePositions\<close>\<close>

text \<open>
  \<open>a0 + (a1 - a0) * (nextDist / distanceToNextVertex)\<close>. With the segment length 0
  the ratio is \<open>NaN\<close> or an infinity and so is the coordinate (\<open>0 * Infinity\<close> is
  \<open>NaN\<close>): \<open>None\<close> is a coordinate that is not a finite number.
\<close>

definition interpolate :: "real \<Rightarrow> real \<Rightarrow> real \<Rightarrow> real \<Rightarrow> real option" where
  "interpolate a0 a1 nextDist distanceToNextVertex =
     (if distanceToNextVertex = 0 then None
      else Some (a0 + (a1 - a0) * (nextDist / distanceToNextVertex)))"

text \<open>
  The step to the next vertex inside the transition branch: \<open>vertexIndex++\<close> and the
  \<open>if\<close> that follows it. It gives the values of \<open>path\<close>, \<open>pathIndex\<close> and
  \<open>vertexIndex\<close> after that \<open>if\<close>. In \<open>path = paths[pathIndex++]\<close> the index is read
  before it is incremented; the \<open>else\<close> branch assigns \<open>pathIndex\<close> only.
\<close>

definition advanceVertex ::
  "polyline \<Rightarrow> path \<Rightarrow> nat \<Rightarrow> nat \<Rightarrow> path option \<times> nat \<times> nat" where
  "advanceVertex paths path pathIndex vertexIndex =
     (if int (vertexIndex + 1) \<ge> int (length path) - 1 then
        (if int pathIndex < int (length paths) - 1
         then (nth_opt paths pathIndex, pathIndex + 1, 0)
         else (Some path, 0, 0))
      else (Some path, pathIndex, vertexIndex + 1))"

text \<open>
  The body of the loop of \<open>_updatePositions\<close> for one track, in the order of the
  program: the lookup of the current segment, the new observation, the new track
  record. The counter \<open>_numCyclesSinceLastActiveUpdate\<close> has been incremented before
  the loop.

  The lookup: \<open>polylines.features[featureIndex].geometry.paths\<close>, \<open>paths[pathIndex]\<close>,
  \<open>path[vertexIndex]\<close> and \<open>path[vertexIndex + 1]\<close>. Reading a property of \<open>undefined\<close>
  throws.
\<close>

definition lookupSegment ::
  "featureSet option \<Rightarrow> trackInfo \<Rightarrow> error + (polyline \<times> path \<times> vertex \<times> vertex)" where
  "lookupSegment polylines_arg t =
     (case polylines_arg of
        None \<Rightarrow> Inl TypeError
      | Some features \<Rightarrow>
          (case nth_opt features (t_featureIndex t) of
             None \<Rightarrow> Inl TypeError
           | Some paths \<Rightarrow>
               (case nth_opt paths (t_pathIndex t) of
                  None \<Rightarrow> Inl TypeError
                | Some path \<Rightarrow>
                    (case nth_opt path (t_vertexIndex t) of
                       None \<Rightarrow> Inl TypeError
                     | Some vertex \<Rightarrow>
                         (case nth_opt path (t_vertexIndex t + 1) of
                            None \<Rightarrow> Inl TypeError
                          | Some vertexNext \<Rightarrow> Inr (paths, path, vertex, vertexNext))))))"

text \<open>
  The observation: the interpolated position, a new \<open>OBJECTID\<close>, the heading of the
  segment the track is on, and a new \<open>ACTIVE\<close> flag in the cycle where the counter is
  \<open>NumCyclesBetweenActiveUpdate\<close>.
\<close>

definition updateObservation ::
  "vertex \<Rightarrow> vertex \<Rightarrow> trackInfo \<Rightarrow> PointFeature \<Rightarrow> service \<Rightarrow> PointFeature \<times> service" where
  "updateObservation vertex vertexNext t obs s =
     (case (vertex, vertexNext) of ((x0, y0), (x1, y1)) \<Rightarrow>
        (let nextDist = t_accumulatedDistance t + t_speed t;
             distanceRatio_x = interpolate x0 x1 nextDist (t_distanceToNextVertex t);
             distanceRatio_y = interpolate y0 y1 nextDist (t_distanceToNextVertex t);
             (oid, s1) = createId s;
             obs1 = obs\<lparr>attr_OBJECTID := oid,
                        attr_HEADING := getAzimuth (x1 - x0) (y1 - y0)\<rparr>;
             (obs2, s2) =
               (if numCyclesSinceLastActiveUpdate s1 = NumCyclesBetweenActiveUpdate
                then (case getIsActive s1 of (a, s') \<Rightarrow> (obs1\<lparr>attr_ACTIVE := a\<rparr>, s'))
                else (obs1, s1))
         in (obs2\<lparr>geometry_x := distanceRatio_x, geometry_y := distanceRatio_y\<rparr>, s2)))"

text \<open>
  The track record: \<open>trackInfos[i + 4] = nextDist\<close> and, when the next step would
  reach the end of the segment, the transition, which writes the slots 1 to 4 and
  leaves the slots 0 (feature) and 5 (speed) as they are.
\<close>

definition updateTrackInfo :: "polyline \<Rightarrow> path \<Rightarrow> trackInfo \<Rightarrow> error + trackInfo" where
  "updateTrackInfo paths path t =
     (let nextDist = t_accumulatedDistance t + t_speed t;
          t1 = t\<lparr>t_accumulatedDistance := nextDist\<rparr>
      in if nextDist + t_speed t \<ge> t_distanceToNextVertex t then
           (case advanceVertex paths path (t_pathIndex t) (t_vertexIndex t) of
              (path', pathIndex, vertexIndex) \<Rightarrow>
                (case path' of
                   None \<Rightarrow> Inl TypeError
                 | Some path'' \<Rightarrow>
                     (case nth_opt path'' vertexIndex of
                        None \<Rightarrow> Inl TypeError
                      | Some (x0, y0) \<Rightarrow>
                          (case nth_opt path'' (vertexIndex + 1) of
                             None \<Rightarrow> Inl TypeError
                           | Some (x1, y1) \<Rightarrow>
                               Inr (t1\<lparr>t_pathIndex := pathIndex,
                                       t_vertexIndex := vertexIndex,
                                       t_distanceToNextVertex :=
                                         sqrt ((x1 - x0) * (x1 - x0) + (y1 - y0) * (y1 - y0)),
                                       t_accumulatedDistance := 0\<rparr>)))))
         else Inr t1)"

definition updateTrack :: "featureSet option \<Rightarrow> nat \<Rightarrow> service \<Rightarrow> error + service" where
  "updateTrack polylines_arg index s =
     (let t = trackInfos s ! index
      in case lookupSegment polylines_arg t of
           Inl e \<Rightarrow> Inl e
         | Inr (paths, path, vertex, vertexNext) \<Rightarrow>
             (case nth_opt (lastObservations s) index of
                None \<Rightarrow> Inl TypeError
              | Some obs \<Rightarrow>
                  (case updateObservation vertex vertexNext t obs s of
                     (obs', s1) \<Rightarrow>
                       (case updateTrackInfo paths path t of
                          Inl e \<Rightarrow> Inl e
                        | Inr t' \<Rightarrow>
                            Inr (s1\<lparr>lastObservations := (lastObservations s1)[index := obs'],
                                    trackInfos := (trackInfos s1)[index := t']\<rparr>)))))"

lemma updateObservation_frame:
  assumes "updateObservation vertex vertexNext t obs s = (obs', s')"
  shows "s' = s\<lparr>idCounter := idCounter s', randomPos := randomPos s'\<rparr>"
    and "attr_TRACKID obs' = attr_TRACKID obs"
    and "attr_TYPE obs' = attr_TYPE obs"
proof -
  obtain x0 y0 x1 y1 where v: "vertex = (x0, y0)" "vertexNext = (x1, y1)"
    by (cases vertex, cases vertexNext) auto
  show "s' = s\<lparr>idCounter := idCounter s', randomPos := randomPos s'\<rparr>"
    using assms unfolding updateObservation_def v Let_def createId_def getIsActive_def random_def
    by (auto split: if_splits)
  show "attr_TRACKID obs' = attr_TRACKID obs"
    using assms unfolding updateObservation_def v Let_def createId_def getIsActive_def random_def
    by (auto split: if_splits)
  show "attr_TYPE obs' = attr_TYPE obs"
    using assms unfolding updateObservation_def v Let_def createId_def getIsActive_def random_def
    by (auto split: if_splits)
qed

lemma updateTrackInfo_frame:
  assumes "updateTrackInfo paths path t = Inr t'"
  shows "t_speed t' = t_speed t" and "t_featureIndex t' = t_featureIndex t"
  using assms unfolding updateTrackInfo_def Let_def
  by (auto split: if_splits prod.splits option.splits)

lemma updateTrack_shape:
  assumes "updateTrack polylines_arg index s = Inr s'"
  shows "\<exists>t' obs' c r.
      s' = s\<lparr>idCounter := c, randomPos := r,
             lastObservations := (lastObservations s)[index := obs'],
             trackInfos := (trackInfos s)[index := t']\<rparr>
      \<and> t_speed t' = t_speed (trackInfos s ! index)
      \<and> t_featureIndex t' = t_featureIndex (trackInfos s ! index)
      \<and> index < length (lastObservations s)
      \<and> attr_TRACKID obs' = attr_TRACKID (lastObservations s ! index)
      \<and> attr_TYPE obs' = attr_TYPE (lastObservations s ! index)"
proof -
  from assms obtain paths path vertex vertexNext obs obs' s1 t'
    where look: "lookupSegment polylines_arg (trackInfos s ! index)
                   = Inr (paths, path, vertex, vertexNext)"
      and obs: "nth_opt (lastObservations s) index = Some obs"
      and upd: "updateObservation vertex vertexNext (trackInfos s ! index) obs s = (obs', s1)"
      and info: "updateTrackInfo paths path (trackInfos s ! index) = Inr t'"
      and s': "s' = s1\<lparr>lastObservations := (lastObservations s1)[index := obs'],
                       trackInfos := (trackInfos s1)[index := t']\<rparr>"
    unfolding updateTrack_def Let_def
    by (auto split: sum.splits option.splits prod.splits)
  from updateObservation_frame(1)[OF upd] obtain c r
    where s1: "s1 = s\<lparr>idCounter := c, randomPos := r\<rparr>" by metis
  have "index < length (lastObservations s)" "obs = lastObservations s ! index"
    using obs by (auto simp: nth_opt_def split: if_splits)
  then show ?thesis
    using s' s1 updateObservation_frame(2,3)[OF upd] updateTrackInfo_frame[OF info]
    by (intro exI[of _ t'] exI[of _ obs'] exI[of _ c] exI[of _ r]) simp
qed

lemma updateTrack_length:
  "updateTrack polylines_arg index s = Inr s' \<Longrightarrow>
     length (trackInfos s') = length (trackInfos s)"
  by (drule updateTrack_shape) auto

text \<open>The loop \<open>for (let i = 0; i < trackInfos.length; i += 6)\<close>, by the track's number.\<close>

function updateLoop :: "featureSet option \<Rightarrow> nat \<Rightarrow> service \<Rightarrow> error + service" where
  "updateLoop polylines_arg index s =
     (if index < length (trackInfos s) then
        (case updateTrack polylines_arg index s of
           Inl e \<Rightarrow> Inl e
         | Inr s' \<Rightarrow> updateLoop polylines_arg (index + 1) s')
      else Inr s)"
  by pat_completeness auto

termination
  by (relation "measure (\<lambda>(polylines_arg, index, s). length (trackInfos s) - index)")
     (auto dest: updateTrack_length)

declare updateLoop.simps [simp del]

definition updatePositions :: "featureSet option \<Rightarrow> service \<Rightarrow> error + service" where
  "updatePositions polylines_arg s =
     (case updateLoop polylines_arg 0
             (s\<lparr>numCyclesSinceLastActiveUpdate := numCyclesSinceLastActiveUpdate s + 1\<rparr>) of
        Inl e \<Rightarrow> Inl e
      | Inr s' \<Rightarrow>
          Inr (if numCyclesSinceLastActiveUpdate s' \<ge> NumCyclesBetweenActiveUpdate
               then s'\<lparr>numCyclesSinceLastActiveUpdate := 0\<rparr> else s'))"

subsection \<open>The Pager: \<open>next\<close>\<close>

text \<open>
  An array that can have holes is a list of options: \<open>None\<close> is a hole or \<open>undefined\<close>,
  both of which \<open>JSON.stringify\<close> writes as \<open>null\<close>. Writing at an index past the end
  extends the array with holes when the index is an array index, that is below
  \<open>2 ^ 32 - 1\<close>. At a larger index the assignment sets a property that is no element of
  the array: the array stays as it is, and \<open>JSON.stringify\<close> does not write the property.
\<close>

definition array_set :: "'a option list \<Rightarrow> nat \<Rightarrow> 'a option \<Rightarrow> 'a option list" where
  "array_set xs i v =
     (if i < length xs then xs[i := v]
      else if i < 0xffffffff then xs @ replicate (i - length xs) None @ [v]
      else xs)"

text \<open>The loop \<open>for (let i = start; i < end; i++) outFeatures[i] = lastObservations[i]\<close>.\<close>

function copyObservations ::
  "PointFeature list \<Rightarrow> nat \<Rightarrow> nat \<Rightarrow> PointFeature option list \<Rightarrow> PointFeature option list"
  where
  "copyObservations observations i stop outFeatures =
     (if i < stop
      then copyObservations observations (i + 1) stop
             (array_set outFeatures i (nth_opt observations i))
      else outFeatures)"
  by pat_completeness auto

termination
  by (relation "measure (\<lambda>(observations, i, stop, outFeatures). stop - i)") auto

declare copyObservations.simps [simp del]

text \<open>
  \<open>next\<close>. The result is the \<open>features\<close> array of the object that is serialised (its
  \<open>type\<close> is the constant \<open>"featureResult"\<close>); the text encoding is not modelled.
  \<open>new Array(end - start)\<close> throws a \<open>RangeError\<close> for a length that is negative or
  above \<open>2 ^ 32 - 1\<close>; it is evaluated after \<open>_nextPage\<close> and before the tick.
\<close>

definition next_features :: "service \<Rightarrow> error + (PointFeature option list \<times> service)" where
  "next_features s =
     (let (p, s1) = nextPage s;
          start = p * pageSize (config s);
          stop = min (start + pageSize (config s)) (trackedAssets (config s))
      in if stop < start \<or> 0xffffffff < stop - start then Inl RangeError
         else
           (let outFeatures = replicate (stop - start) None
            in case (if start = 0 then updatePositions (polylines s) s1 else Inr s1) of
                 Inl e \<Rightarrow> Inl e
               | Inr s2 \<Rightarrow>
                   Inr (copyObservations (lastObservations s2) start stop outFeatures, s2)))"

text \<open>\<open>n\<close> requests in a row, with the results in the order of the requests.\<close>

fun requests :: "nat \<Rightarrow> service \<Rightarrow> error + (PointFeature option list list \<times> service)" where
  "requests 0 s = Inr ([], s)"
| "requests (Suc n) s =
     (case next_features s of
        Inl e \<Rightarrow> Inl e
      | Inr (features, s') \<Rightarrow>
          (case requests n s' of
             Inl e \<Rightarrow> Inl e
           | Inr (rest, s'') \<Rightarrow> Inr (features # rest, s'')))"

section \<open>Notions for stating the properties\<close>

subsection \<open>Runs and observers\<close>

text \<open>
  A session: \<open>new MockService(cfg)\<close>, \<open>initialize(features)\<close>, then \<open>n\<close> calls of
  \<open>next()\<close>.
\<close>

definition session ::
  "MockServiceConfig \<Rightarrow> (nat \<Rightarrow> real) \<Rightarrow> featureSet \<Rightarrow> nat
     \<Rightarrow> error + (PointFeature option list list \<times> service)" where
  "session cfg rnd features n =
     (case initialize features (newService cfg rnd) of
        Inl e \<Rightarrow> Inl e
      | Inr s \<Rightarrow> requests n s)"

text \<open>What a property reads off an observation or a page.\<close>

definition position :: "PointFeature \<Rightarrow> real option \<times> real option" where
  "position obs = (geometry_x obs, geometry_y obs)"

definition trackIds :: "PointFeature option list \<Rightarrow> nat option list" where
  "trackIds features = map (map_option attr_TRACKID) features"

text \<open>
  The segment a track is on: the two vertices \<open>_updatePositions\<close> looks up from the
  track's feature, path and vertex index, and their distance.
\<close>

definition currentSegment :: "featureSet \<Rightarrow> trackInfo \<Rightarrow> (vertex \<times> vertex) option" where
  "currentSegment features t =
     (case nth_opt features (t_featureIndex t) of
        None \<Rightarrow> None
      | Some paths \<Rightarrow>
          (case nth_opt paths (t_pathIndex t) of
             None \<Rightarrow> None
           | Some path \<Rightarrow>
               (case nth_opt path (t_vertexIndex t) of
                  None \<Rightarrow> None
                | Some v \<Rightarrow>
                    (case nth_opt path (t_vertexIndex t + 1) of
                       None \<Rightarrow> None
                     | Some w \<Rightarrow> Some (v, w)))))"

definition segmentLength :: "vertex \<times> vertex \<Rightarrow> real" where
  "segmentLength seg =
     (case seg of ((x0, y0), (x1, y1)) \<Rightarrow>
        sqrt ((x1 - x0) * (x1 - x0) + (y1 - y0) * (y1 - y0)))"

text \<open>
  The tracks a call of \<open>initialize\<close> has placed, from the state \<open>s0\<close> before the call and
  the state \<open>s\<close> after it: \<open>_trackInfos\<close> is never cleared, so the call appends to the
  tracks that were there.
\<close>

definition placedTracks :: "service \<Rightarrow> service \<Rightarrow> trackInfo list" where
  "placedTracks s0 s = drop (length (trackInfos s0)) (trackInfos s)"

text \<open>The number of the tracks \<open>ts\<close> that are on the feature \<open>f\<close>.\<close>

definition tracksOn :: "nat \<Rightarrow> trackInfo list \<Rightarrow> nat" where
  "tracksOn f ts = length (filter (\<lambda>t. t_featureIndex t = f) ts)"

text \<open>\<open>n\<close> calls of \<open>_createId\<close>, as the state they leave.\<close>

fun createIds :: "nat \<Rightarrow> service \<Rightarrow> service" where
  "createIds 0 s = s"
| "createIds (Suc n) s = createIds n (snd (createId s))"

text \<open>\<open>\<lceil>trackedAssets / pageSize\<rceil>\<close>, the number of requests of a cycle.\<close>

definition cycleLength :: "MockServiceConfig \<Rightarrow> nat" where
  "cycleLength cfg = (trackedAssets cfg + pageSize cfg - 1) div pageSize cfg"

text \<open>
  The largest page of a cycle is the first one, with \<open>min(pageSize, trackedAssets)\<close>
  entries: it is short enough for \<open>new Array\<close>.
\<close>

definition pageFitsArray :: "MockServiceConfig \<Rightarrow> bool" where
  "pageFitsArray cfg \<longleftrightarrow> min (pageSize cfg) (trackedAssets cfg) \<le> 0xffffffff"

text \<open>
  The pager computes on doubles. With \<open>trackedAssets\<close> at most \<open>2 ^ 53\<close> every page
  number and every start of a page is an integer below \<open>2 ^ 53\<close>, and each comparison
  and each \<open>min\<close> with \<open>trackedAssets\<close> has the result it has on integers.
\<close>

definition exactPaging :: "MockServiceConfig \<Rightarrow> bool" where
  "exactPaging cfg \<longleftrightarrow> trackedAssets cfg \<le> 0x20000000000000"

text \<open>
  A start position of \<open>_initialize\<close> or a position of a track lies inside a path: the
  vertex and the vertex after it exist.
\<close>

definition inBounds :: "polyline \<Rightarrow> nat \<Rightarrow> nat \<Rightarrow> bool" where
  "inBounds polyline currentPath currentVertex \<longleftrightarrow>
     currentPath < length polyline \<and> currentVertex + 1 < length (polyline ! currentPath)"

text \<open>A track as \<open>_initialize\<close> places it on the polyline of the feature \<open>f\<close>.\<close>

definition placedOn :: "polyline \<Rightarrow> real \<Rightarrow> nat \<Rightarrow> trackInfo \<Rightarrow> bool" where
  "placedOn polyline dStep f t \<longleftrightarrow>
     t_featureIndex t = f \<and>
     t_pathIndex t < length polyline \<and>
     t_vertexIndex t + 1 < length (polyline ! t_pathIndex t) \<and>
     t_distanceToNextVertex t =
       segmentLength (polyline ! t_pathIndex t ! t_vertexIndex t,
                      polyline ! t_pathIndex t ! (t_vertexIndex t + 1)) \<and>
     t_accumulatedDistance t = 0 \<and>
     t_speed t = t_distanceToNextVertex t * dStep"

text \<open>The track is on a segment of the input: its two vertices exist.\<close>

definition onSegment :: "featureSet \<Rightarrow> trackInfo \<Rightarrow> bool" where
  "onSegment features t \<longleftrightarrow>
     t_featureIndex t < length features \<and>
     inBounds (features ! t_featureIndex t) (t_pathIndex t) (t_vertexIndex t)"

text \<open>The fields no part of \<open>_initialize\<close> writes.\<close>

definition sameSettings :: "service \<Rightarrow> service \<Rightarrow> bool" where
  "sameSettings s s' \<longleftrightarrow>
     config s' = config s \<and> page s' = page s \<and> polylines s' = polylines s \<and>
     numCyclesSinceLastActiveUpdate s' = numCyclesSinceLastActiveUpdate s \<and>
     randomSource s' = randomSource s"

text \<open>
  A service without tracks and observations whose page is one that \<open>_nextPage\<close> can
  have set and whose pages are short enough for \<open>new Array\<close>.
\<close>

definition emptyService :: "service \<Rightarrow> bool" where
  "emptyService s \<longleftrightarrow>
     trackInfos s = [] \<and> lastObservations s = [] \<and>
     (page s = 0 \<or> page s * pageSize (config s) < trackedAssets (config s)) \<and>
     min (pageSize (config s)) (trackedAssets (config s)) \<le> 0xffffffff"

text \<open>
  The values of \<open>featureIndex\<close>, \<open>trackIndex\<close> and the state each time the guard of the
  \<open>while\<close> loop of \<open>_initialize\<close> is evaluated, for the loop started in \<open>s0\<close>.
\<close>

inductive whileGuard ::
  "featureSet \<Rightarrow> nat \<Rightarrow> nat \<Rightarrow> service \<Rightarrow> nat \<Rightarrow> nat \<Rightarrow> service \<Rightarrow> bool"
  for features vertexSum numOfTrackedAssets s0 where
  start: "whileGuard features vertexSum numOfTrackedAssets s0 0 0 s0"
| step: "whileGuard features vertexSum numOfTrackedAssets s0 featureIndex trackIndex s \<Longrightarrow>
     trackIndex < numOfTrackedAssets \<Longrightarrow>
     featureIndex < length features \<Longrightarrow>
     placeTracks featureIndex (features ! featureIndex)
       (numOfTracksPerFeature numOfTrackedAssets
          (getNumberOfVertices (features ! featureIndex)) vertexSum)
       (vertexNumBetweenTracks (getNumberOfVertices (features ! featureIndex))
          (numOfTracksPerFeature numOfTrackedAssets
             (getNumberOfVertices (features ! featureIndex)) vertexSum))
       0 0 0 trackIndex s = Inr (trackIndex', s') \<Longrightarrow>
     whileGuard features vertexSum numOfTrackedAssets s0 (featureIndex + 1) trackIndex' s'"

text \<open>
  The feature \<open>f\<close> is processed by \<open>initialize features s0\<close>: the body of the loop is
  entered for it.
\<close>

definition processed :: "featureSet \<Rightarrow> service \<Rightarrow> nat \<Rightarrow> bool" where
  "processed features s0 f \<longleftrightarrow>
     f < length features \<and>
     (\<exists>trackIndex s.
        whileGuard features (sumPolylineVertices features) (trackedAssets (config s0))
          (s0\<lparr>polylines := Some features\<rparr>) f trackIndex s
        \<and> trackIndex < trackedAssets (config s0))"

subsection \<open>Inputs of the examples\<close>

text \<open>
  Configurations: one tracked asset with \<open>distStep = 0.5\<close>; three assets in pages of
  two; 25 assets in pages of 10 (the cycle of the specification); 10 and 3 assets;
  \<open>2 ^ 32\<close> assets in one page.
\<close>

definition unit_config :: MockServiceConfig where
  "unit_config = \<lparr>trackedAssets = 1, pageSize = 10000, distStep = 0.5\<rparr>"

definition paged_config :: MockServiceConfig where
  "paged_config = \<lparr>trackedAssets = 3, pageSize = 2, distStep = 0.5\<rparr>"

definition claimed_config :: MockServiceConfig where
  "claimed_config = \<lparr>trackedAssets = 25, pageSize = 10, distStep = 0.02\<rparr>"

definition crowded_config :: MockServiceConfig where
  "crowded_config = \<lparr>trackedAssets = 10, pageSize = 10, distStep = 0.02\<rparr>"

definition overshoot_config :: MockServiceConfig where
  "overshoot_config = \<lparr>trackedAssets = 3, pageSize = 3, distStep = 0.02\<rparr>"

definition oversized_config :: MockServiceConfig where
  "oversized_config = \<lparr>trackedAssets = 0x100000000, pageSize = 0x100000000, distStep = 0.02\<rparr>"

text \<open>A path with a corner and a path of one segment.\<close>

definition bend :: path where
  "bend = [(0, 0), (1, 0), (1, 1)]"

definition stub :: path where
  "stub = [(0, 0), (1, 0)]"

text \<open>The example of the specification: one feature, one path with a corner.\<close>

definition corner_features :: featureSet where
  "corner_features = [[[(0, 0), (1, 0), (1, 1)]]]"

text \<open>One feature with one path whose two segments have the lengths 10 and 1.\<close>

definition overrun_features :: featureSet where
  "overrun_features = [[[(0, 0), (10, 0), (10, 1)]]]"

text \<open>One feature with two paths of one segment: it has a start for 2 tracks only.\<close>

definition sparse_features :: featureSet where
  "sparse_features = [[stub, stub]]"

text \<open>One feature with two paths; the first segment of the second path has length 2.\<close>

definition forked_features :: featureSet where
  "forked_features = [[[(0, 0), (1, 0)], [(0, 0), (0, 2)]]]"

text \<open>Two features of 2 vertices and one feature with a path of 8 vertices.\<close>

definition overshoot_features :: featureSet where
  "overshoot_features =
     [[stub], [stub], [[(0, 0), (1, 0), (2, 0), (3, 0), (4, 0), (5, 0), (6, 0), (7, 0)]]]"

text \<open>
  A feature of five paths with 3 vertices each, followed by five features of one path
  with 2 vertices.
\<close>

definition crowded_features :: featureSet where
  "crowded_features = [[bend, bend, bend, bend, bend], [stub], [stub], [stub], [stub], [stub]]"

section \<open>Lemmas\<close>

subsection \<open>Evaluation\<close>

text \<open>The two floors, on integers.\<close>

lemma vertexNumBetweenTracks_div:
  "vertexNumBetweenTracks numberOfVertices numOfTracks =
     (4 * numberOfVertices) div (5 * numOfTracks)"
proof -
  have "0.8 * real numberOfVertices / real numOfTracks
      = real (4 * numberOfVertices) / real (5 * numOfTracks)"
    by simp
  then show ?thesis
    unfolding vertexNumBetweenTracks_def by (simp only: floor_divide_of_nat_eq nat_int)
qed

lemma numOfTracksPerFeature_div:
  "numOfTracksPerFeature numOfTrackedAssets numberOfVertices vertexSum =
     (if vertexSum = 0 then 0
      else max ((numOfTrackedAssets * numberOfVertices) div vertexSum) 1)"
  unfolding numOfTracksPerFeature_def by (simp only: floor_divide_of_nat_eq nat_int)

lemma sqrt_100: "sqrt 100 = 10"
  by (rule real_sqrt_unique) simp_all

lemmas eval_allocate =
  initialize_def private_initialize_def allocate.simps placeTracks.simps placeTrack_def
  nth_opt_def newService_def sumPolylineVertices_def getNumberOfVertices_def
  numOfTracksPerFeature_div vertexNumBetweenTracks_div getNextTrackStart_def createId_def
  random_def getIsActive_def Let_def

lemmas eval_update =
  updatePositions_def updateLoop.simps updateTrack_def lookupSegment_def updateObservation_def
  updateTrackInfo_def advanceVertex_def interpolate_def
  NumCyclesBetweenActiveUpdate_def nth_opt_def createId_def random_def getIsActive_def Let_def

lemmas eval_next =
  session_def next_features_def nextPage_def copyObservations.simps array_set_def
  position_def trackIds_def currentSegment_def segmentLength_def tracksOn_def

lemmas eval_crowded = crowded_features_def crowded_config_def bend_def stub_def

subsection \<open>The identifier generator\<close>

lemma idCounter_createIds:
  "idCounter (createIds n s) =
     (if n = 0 then idCounter s else (idCounter s + n) mod 0xfffffffe)"
proof (induction n arbitrary: s)
  case 0
  show ?case by simp
next
  case (Suc n)
  show ?case
  proof (cases "n = 0")
    case True
    then show ?thesis by (simp add: createId_def)
  next
    case False
    have "idCounter (createIds (Suc n) s)
        = ((idCounter s + 1) mod 0xfffffffe + n) mod 0xfffffffe"
      using False by (simp add: Suc.IH createId_def)
    also have "\<dots> = (idCounter s + 1 + n) mod 0xfffffffe"
      by (rule mod_add_left_eq)
    finally show ?thesis by (simp add: add.commute add.left_commute)
  qed
qed

subsection \<open>The pager's output loop\<close>

lemma array_set_length:
  "i < 0xffffffff \<Longrightarrow> length (array_set xs i v) = max (length xs) (Suc i)"
  by (auto simp: array_set_def)

lemma array_set_nth:
  "i < 0xffffffff \<Longrightarrow> j < max (length xs) (Suc i) \<Longrightarrow>
     array_set xs i v ! j = (if j = i then v else if j < length xs then xs ! j else None)"
  by (auto simp: array_set_def nth_append nth_list_update)

lemma array_set_holes:
  "set xs \<subseteq> {None} \<Longrightarrow> set (array_set xs i None) \<subseteq> {None}"
  by (auto simp: array_set_def dest: set_update_subset_insert[THEN subsetD])

lemma copyObservations_length:
  "stop \<le> 0xffffffff \<Longrightarrow>
   length (copyObservations observations i stop out) =
     (if i < stop then max (length out) stop else length out)"
proof (induction observations i stop out rule: copyObservations.induct)
  case (1 observations i stop out)
  show ?case
  proof (cases "i < stop")
    case True
    then have "i < 0xffffffff" using "1.prems" by simp
    then show ?thesis
      using True "1.IH"[OF True "1.prems"]
      by (subst copyObservations.simps) (auto simp: array_set_length)
  next
    case False
    then show ?thesis by (subst copyObservations.simps) simp
  qed
qed

lemma copyObservations_nth:
  "stop \<le> 0xffffffff \<Longrightarrow> j < length (copyObservations observations i stop out) \<Longrightarrow>
     copyObservations observations i stop out ! j =
       (if i \<le> j \<and> j < stop then nth_opt observations j
        else if j < length out then out ! j else None)"
proof (induction observations i stop out rule: copyObservations.induct)
  case (1 observations i stop out)
  note bound = "1.prems"(1)
  show ?case
  proof (cases "i < stop")
    case True
    then have i: "i < 0xffffffff" using bound by simp
    have eq: "copyObservations observations i stop out =
        copyObservations observations (i + 1) stop (array_set out i (nth_opt observations i))"
      using True by (subst copyObservations.simps) simp
    have j: "j < length (copyObservations observations (i + 1) stop
                           (array_set out i (nth_opt observations i)))"
      using "1.prems"(2) eq by simp
    have jb: "\<not> (i + 1 \<le> j \<and> j < stop) \<Longrightarrow> j < max (length out) (Suc i)"
      using j True
      by (auto simp: copyObservations_length[OF bound] array_set_length[OF i] split: if_splits)
    show ?thesis
      unfolding eq using "1.IH"[OF True bound j] jb True
      by (auto simp: array_set_nth[OF i] array_set_length[OF i])
  next
    case False
    have "copyObservations observations i stop out = out"
      using False by (subst copyObservations.simps) simp
    then show ?thesis using False "1.prems" by auto
  qed
qed

text \<open>
  The array a request returns: for a page that does not start at 0 the observations
  stand at their own indices \<open>start\<close>, ..., \<open>stop - 1\<close>, after \<open>start\<close> holes.
\<close>

lemma copyObservations_page:
  assumes bound: "stop \<le> 0xffffffff"
  shows "copyObservations observations start stop (replicate (stop - start) None) =
     (if start < stop
      then replicate start None @ map (nth_opt observations) [start..<stop] else [])"
proof (cases "start < stop")
  case True
  show ?thesis
  proof (rule nth_equalityI)
    show "length (copyObservations observations start stop (replicate (stop - start) None)) =
      length (if start < stop
              then replicate start None @ map (nth_opt observations) [start..<stop] else [])"
      using True by (simp add: copyObservations_length[OF bound])
  next
    fix j
    assume "j < length (copyObservations observations start stop
                          (replicate (stop - start) None))"
    then show "copyObservations observations start stop (replicate (stop - start) None) ! j =
      (if start < stop
       then replicate start None @ map (nth_opt observations) [start..<stop] else []) ! j"
      using True
      by (auto simp: copyObservations_nth[OF bound] copyObservations_length[OF bound]
            nth_append)
  qed
next
  case False
  then show ?thesis by (subst copyObservations.simps) simp
qed

text \<open>With no observations the loop writes \<open>undefined\<close> only.\<close>

lemma copyObservations_holes:
  "set out \<subseteq> {None} \<Longrightarrow> set (copyObservations [] i stop out) \<subseteq> {None}"
proof (induction "[] :: PointFeature list" i stop out rule: copyObservations.induct)
  case (1 i stop out)
  show ?case
  proof (cases "i < stop")
    case True
    have "set (array_set out i (nth_opt [] i)) \<subseteq> {None}"
      using array_set_holes[OF "1.prems"] by (simp add: nth_opt_def)
    from "1.hyps"[OF True this] True show ?thesis
      by (subst copyObservations.simps) simp
  next
    case False
    then show ?thesis using "1.prems" by (subst copyObservations.simps) simp
  qed
qed

subsection \<open>What a tick leaves as it is\<close>

lemma map_update_same:
  assumes "f v = f (xs ! i)"
  shows "map f (xs[i := v]) = map f xs"
proof (cases "i < length xs")
  case True
  then show ?thesis using assms by (simp add: map_update list_update_same_conv)
next
  case False
  then have "xs[i := v] = xs" by (simp add: list_update_beyond)
  then show ?thesis by simp
qed

lemma updateTrack_frame:
  assumes "updateTrack polylines_arg index s = Inr s'"
  shows "config s' = config s" and "page s' = page s" and "polylines s' = polylines s"
    and "numCyclesSinceLastActiveUpdate s' = numCyclesSinceLastActiveUpdate s"
    and "randomSource s' = randomSource s"
    and "length (lastObservations s') = length (lastObservations s)"
    and "map t_speed (trackInfos s') = map t_speed (trackInfos s)"
    and "map t_featureIndex (trackInfos s') = map t_featureIndex (trackInfos s)"
    and "map attr_TRACKID (lastObservations s') = map attr_TRACKID (lastObservations s)"
  using updateTrack_shape[OF assms] by (auto simp: map_update_same)

lemma updateLoop_frame:
  assumes "updateLoop polylines_arg index s = Inr s'"
  shows "config s' = config s \<and> page s' = page s \<and> polylines s' = polylines s
    \<and> numCyclesSinceLastActiveUpdate s' = numCyclesSinceLastActiveUpdate s
    \<and> randomSource s' = randomSource s
    \<and> length (lastObservations s') = length (lastObservations s)
    \<and> length (trackInfos s') = length (trackInfos s)
    \<and> map t_speed (trackInfos s') = map t_speed (trackInfos s)
    \<and> map t_featureIndex (trackInfos s') = map t_featureIndex (trackInfos s)
    \<and> map attr_TRACKID (lastObservations s') = map attr_TRACKID (lastObservations s)"
  using assms
proof (induction polylines_arg index s rule: updateLoop.induct)
  case (1 p index s)
  show ?case
  proof (cases "index < length (trackInfos s)")
    case True
    with "1.prems" obtain s1 where
      step: "updateTrack p index s = Inr s1" and rest: "updateLoop p (index + 1) s1 = Inr s'"
      by (subst (asm) updateLoop.simps) (auto split: sum.splits)
    from "1.IH"[OF True step rest] updateTrack_frame[OF step] updateTrack_length[OF step]
    show ?thesis by simp
  next
    case False
    with "1.prems" have "s' = s" by (subst (asm) updateLoop.simps) simp
    then show ?thesis by simp
  qed
qed

lemma updatePositions_frame:
  assumes "updatePositions polylines_arg s = Inr s'"
  shows "config s' = config s \<and> page s' = page s \<and> polylines s' = polylines s
    \<and> randomSource s' = randomSource s
    \<and> length (lastObservations s') = length (lastObservations s)
    \<and> length (trackInfos s') = length (trackInfos s)
    \<and> map t_speed (trackInfos s') = map t_speed (trackInfos s)
    \<and> map t_featureIndex (trackInfos s') = map t_featureIndex (trackInfos s)
    \<and> map attr_TRACKID (lastObservations s') = map attr_TRACKID (lastObservations s)"
proof -
  from assms obtain s1 where
    loop: "updateLoop polylines_arg 0
             (s\<lparr>numCyclesSinceLastActiveUpdate := numCyclesSinceLastActiveUpdate s + 1\<rparr>) = Inr s1"
    and s': "s' = (if numCyclesSinceLastActiveUpdate s1 \<ge> NumCyclesBetweenActiveUpdate
               then s1\<lparr>numCyclesSinceLastActiveUpdate := 0\<rparr> else s1)"
    unfolding updatePositions_def by (auto split: sum.splits)
  from updateLoop_frame[OF loop] s' show ?thesis by (auto split: if_splits)
qed

text \<open>A tick changes the counter of cycles, so a tick is never the identity.\<close>

lemma updatePositions_counter:
  assumes "updatePositions polylines_arg s = Inr s'"
  shows "numCyclesSinceLastActiveUpdate s' =
     (if numCyclesSinceLastActiveUpdate s + 1 \<ge> NumCyclesBetweenActiveUpdate then 0
      else numCyclesSinceLastActiveUpdate s + 1)"
proof -
  from assms obtain s1 where
    loop: "updateLoop polylines_arg 0
             (s\<lparr>numCyclesSinceLastActiveUpdate := numCyclesSinceLastActiveUpdate s + 1\<rparr>) = Inr s1"
    and s': "s' = (if numCyclesSinceLastActiveUpdate s1 \<ge> NumCyclesBetweenActiveUpdate
               then s1\<lparr>numCyclesSinceLastActiveUpdate := 0\<rparr> else s1)"
    unfolding updatePositions_def by (auto split: sum.splits)
  from updateLoop_frame[OF loop] s' show ?thesis by (auto split: if_splits)
qed

lemma updateObservation_page:
  "updateObservation vertex vertexNext t obs (s\<lparr>page := x\<rparr>) =
     (case updateObservation vertex vertexNext t obs s of (obs', s') \<Rightarrow> (obs', s'\<lparr>page := x\<rparr>))"
  unfolding updateObservation_def Let_def createId_def getIsActive_def random_def
  by (auto split: prod.splits)

lemma updateTrack_page:
  "updateTrack polylines_arg index (s\<lparr>page := x\<rparr>) =
     map_sum id (\<lambda>s'. s'\<lparr>page := x\<rparr>) (updateTrack polylines_arg index s)"
  unfolding updateTrack_def Let_def
  by (auto simp: updateObservation_page split: sum.splits option.splits prod.splits)

lemma updateLoop_page:
  "updateLoop polylines_arg index (s\<lparr>page := x\<rparr>) =
     map_sum id (\<lambda>s'. s'\<lparr>page := x\<rparr>) (updateLoop polylines_arg index s)"
proof (induction polylines_arg index s rule: updateLoop.induct)
  case (1 p index s)
  note unfold = updateLoop.simps[of p index s] updateLoop.simps[of p index "s\<lparr>page := x\<rparr>"]
  show ?case
  proof (cases "index < length (trackInfos s)")
    case True
    show ?thesis
    proof (cases "updateTrack p index s")
      case (Inl e)
      then show ?thesis
        using True by (simp add: unfold updateTrack_page)
    next
      case (Inr s1)
      then show ?thesis
        using True "1.IH"[OF True Inr] by (simp add: unfold updateTrack_page)
    qed
  next
    case False
    then show ?thesis by (simp add: unfold)
  qed
qed

lemma page_counter_commute:
  "s\<lparr>page := x, numCyclesSinceLastActiveUpdate := n\<rparr> =
   s\<lparr>numCyclesSinceLastActiveUpdate := n\<rparr>\<lparr>page := x\<rparr>"
  by (cases s) simp

lemma updatePositions_page:
  "updatePositions polylines_arg (s\<lparr>page := x\<rparr>) =
     map_sum id (\<lambda>s'. s'\<lparr>page := x\<rparr>) (updatePositions polylines_arg s)"
proof -
  let ?s1 = "s\<lparr>numCyclesSinceLastActiveUpdate := numCyclesSinceLastActiveUpdate s + 1\<rparr>"
  have "updatePositions polylines_arg (s\<lparr>page := x\<rparr>) =
      (case updateLoop polylines_arg 0 (?s1\<lparr>page := x\<rparr>) of
         Inl e \<Rightarrow> Inl e
       | Inr s' \<Rightarrow>
           Inr (if numCyclesSinceLastActiveUpdate s' \<ge> NumCyclesBetweenActiveUpdate
                then s'\<lparr>numCyclesSinceLastActiveUpdate := 0\<rparr> else s'))"
    unfolding updatePositions_def by (simp add: page_counter_commute)
  also have "\<dots> = map_sum id (\<lambda>s'. s'\<lparr>page := x\<rparr>) (updatePositions polylines_arg s)"
    unfolding updatePositions_def updateLoop_page
    by (cases "updateLoop polylines_arg 0 ?s1") (simp_all add: page_counter_commute)
  finally show ?thesis .
qed

subsection \<open>Requests and cycles\<close>

text \<open>
  \<open>next\<close> in one equation: the page it serves, the tick when that page starts at 0, the
  array it returns and the page it moves to.
\<close>

lemma next_features_unfold:
  "next_features s =
     (let start = page s * pageSize (config s);
          stop = min (start + pageSize (config s)) (trackedAssets (config s));
          p' = (if (page s + 1) * pageSize (config s) \<ge> trackedAssets (config s)
                then 0 else page s + 1)
      in if stop < start \<or> 0xffffffff < stop - start then Inl RangeError
         else (case (if start = 0 then updatePositions (polylines s) s else Inr s) of
                 Inl e \<Rightarrow> Inl e
               | Inr s2 \<Rightarrow>
                   Inr (copyObservations (lastObservations s2) start stop
                          (replicate (stop - start) None),
                        s2\<lparr>page := p'\<rparr>)))"
  unfolding next_features_def Let_def nextPage_def
  by (auto simp: updatePositions_page split: sum.splits)

text \<open>The array, when every index of a track is an array index.\<close>

lemma next_features_eq:
  assumes "trackedAssets (config s) \<le> 0xffffffff"
  shows "next_features s =
     (let start = page s * pageSize (config s);
          stop = min (start + pageSize (config s)) (trackedAssets (config s));
          p' = (if (page s + 1) * pageSize (config s) \<ge> trackedAssets (config s)
                then 0 else page s + 1)
      in if stop < start \<or> 0xffffffff < stop - start then Inl RangeError
         else (case (if start = 0 then updatePositions (polylines s) s else Inr s) of
                 Inl e \<Rightarrow> Inl e
               | Inr s2 \<Rightarrow>
                   Inr (if start < stop
                        then replicate start None @
                             map (nth_opt (lastObservations s2)) [start..<stop]
                        else [],
                        s2\<lparr>page := p'\<rparr>)))"
proof -
  have bound: "min (page s * pageSize (config s) + pageSize (config s))
      (trackedAssets (config s)) \<le> 0xffffffff"
    using assms by simp
  show ?thesis
    unfolding next_features_unfold Let_def copyObservations_page[OF bound] by (rule refl)
qed

lemma less_cycleLength_iff:
  assumes "0 < pageSize cfg"
  shows "k < cycleLength cfg \<longleftrightarrow> k * pageSize cfg < trackedAssets cfg"
proof -
  have "k < cycleLength cfg \<longleftrightarrow> Suc k \<le> cycleLength cfg" by auto
  also have "\<dots> \<longleftrightarrow> Suc k * pageSize cfg \<le> trackedAssets cfg + pageSize cfg - 1"
    unfolding cycleLength_def using assms by (simp only: less_eq_div_iff_mult_less_eq)
  also have "\<dots> \<longleftrightarrow> k * pageSize cfg < trackedAssets cfg"
    using assms by auto
  finally show ?thesis .
qed

text \<open>A first page that is too long for \<open>new Array\<close>.\<close>

lemma next_features_too_long:
  assumes "page s = 0" and "\<not> pageFitsArray (config s)"
  shows "next_features s = Inl RangeError"
proof -
  have "0xffffffff < min (pageSize (config s)) (trackedAssets (config s))"
    using assms(2) unfolding pageFitsArray_def by linarith
  then show ?thesis unfolding next_features_unfold Let_def assms(1) by simp
qed

text \<open>One request of a cycle: the tick on the page 0 only, and the page that follows.\<close>

lemma request_in_cycle:
  assumes ps: "0 < pageSize (config s)" and k: "page s < cycleLength (config s)"
    and fits: "pageFitsArray (config s)"
  shows "map_sum id snd (next_features s) =
     map_sum id (\<lambda>s'. s'\<lparr>page := Suc (page s) mod cycleLength (config s)\<rparr>)
       (if page s = 0 then updatePositions (polylines s) s else Inr s)"
proof -
  let ?n = "cycleLength (config s)"
  have lt: "page s * pageSize (config s) < trackedAssets (config s)"
    using k less_cycleLength_iff[OF ps] by simp
  have nxt: "(if (page s + 1) * pageSize (config s) \<ge> trackedAssets (config s)
              then 0 else page s + 1) = Suc (page s) mod ?n"
  proof (cases "Suc (page s) < ?n")
    case True
    then show ?thesis using less_cycleLength_iff[OF ps, of "Suc (page s)"] by simp
  next
    case False
    then have "Suc (page s) = ?n" using k by simp
    then show ?thesis using less_cycleLength_iff[OF ps, of "Suc (page s)"] by simp
  qed
  have start0: "page s * pageSize (config s) = 0 \<longleftrightarrow> page s = 0" using ps by simp
  have "min (a + b) c - a \<le> min b c" for a b c :: nat by arith
  from this[of "page s * pageSize (config s)" "pageSize (config s)" "trackedAssets (config s)"]
  have len: "\<not> 0xffffffff < min (page s * pageSize (config s) + pageSize (config s))
                 (trackedAssets (config s)) - page s * pageSize (config s)"
    using fits unfolding pageFitsArray_def by linarith
  show ?thesis
    unfolding next_features_unfold Let_def nxt start0 using lt len
    by (auto split: sum.splits)
qed

text \<open>The requests after the first one of a cycle change the page only.\<close>

lemma requests_rest_of_cycle:
  assumes "0 < pageSize (config s)"
    and "0 < page s" and "page s < cycleLength (config s)"
    and "page s + m \<le> cycleLength (config s)"
    and "pageFitsArray (config s)"
  shows "map_sum id snd (requests m s) =
     Inr (s\<lparr>page := (page s + m) mod cycleLength (config s)\<rparr>)"
  using assms
proof (induction m arbitrary: s)
  case 0
  then show ?case by simp
next
  case (Suc m)
  let ?n = "cycleLength (config s)"
  have k: "page s < ?n" using Suc.prems by simp
  from request_in_cycle[OF Suc.prems(1) k Suc.prems(5)] Suc.prems(2)
  obtain features where
    nf: "next_features s = Inr (features, s\<lparr>page := Suc (page s) mod ?n\<rparr>)"
    by (cases "next_features s") auto
  show ?case
  proof (cases "m = 0")
    case True
    then show ?thesis using nf by simp
  next
    case False
    then have lt: "Suc (page s) < ?n" using Suc.prems by simp
    let ?s1 = "s\<lparr>page := Suc (page s)\<rparr>"
    have "map_sum id snd (requests m ?s1) =
        Inr (?s1\<lparr>page := (page ?s1 + m) mod cycleLength (config ?s1)\<rparr>)"
      by (rule Suc.IH) (use Suc.prems lt in simp_all)
    then show ?thesis using nf lt
      by (cases "requests m ?s1") (auto simp: mod_less)
  qed
qed

subsection \<open>What requests leave as it is\<close>

lemma next_features_frame:
  assumes "next_features s = Inr (features, s')"
  shows "config s' = config s \<and> polylines s' = polylines s
    \<and> length (trackInfos s') = length (trackInfos s)
    \<and> length (lastObservations s') = length (lastObservations s)
    \<and> map t_speed (trackInfos s') = map t_speed (trackInfos s)
    \<and> map t_featureIndex (trackInfos s') = map t_featureIndex (trackInfos s)
    \<and> map attr_TRACKID (lastObservations s') = map attr_TRACKID (lastObservations s)"
proof (cases "page s * pageSize (config s) = 0")
  case True
  with assms obtain s2 p where tick: "updatePositions (polylines s) s = Inr s2"
    and s': "s' = s2\<lparr>page := p\<rparr>"
    unfolding next_features_unfold Let_def by (auto split: sum.splits if_splits)
  from updatePositions_frame[OF tick] show ?thesis unfolding s' by simp
next
  case False
  with assms obtain p where s': "s' = s\<lparr>page := p\<rparr>"
    unfolding next_features_unfold Let_def by (auto split: sum.splits if_splits)
  show ?thesis unfolding s' by simp
qed

lemma requests_frame:
  assumes "requests n s = Inr (pages, s')"
  shows "config s' = config s \<and> polylines s' = polylines s
    \<and> length (trackInfos s') = length (trackInfos s)
    \<and> length (lastObservations s') = length (lastObservations s)
    \<and> map t_speed (trackInfos s') = map t_speed (trackInfos s)
    \<and> map t_featureIndex (trackInfos s') = map t_featureIndex (trackInfos s)
    \<and> map attr_TRACKID (lastObservations s') = map attr_TRACKID (lastObservations s)"
  using assms
proof (induction n arbitrary: s pages)
  case 0
  then show ?case by simp
next
  case (Suc n)
  from Suc.prems obtain features s1 rest where
    first: "next_features s = Inr (features, s1)" and rest: "requests n s1 = Inr (rest, s')"
    by (auto split: sum.splits prod.splits)
  from Suc.IH[OF rest] next_features_frame[OF first] show ?case by simp
qed

subsection \<open>What the allocation appends\<close>

lemma sameSettings_refl: "sameSettings s s"
  by (simp add: sameSettings_def)

lemma sameSettings_trans: "sameSettings s s1 \<Longrightarrow> sameSettings s1 s2 \<Longrightarrow> sameSettings s s2"
  by (simp add: sameSettings_def)

lemma placeTrack_error:
  "\<not> inBounds polyline currentPath currentVertex \<Longrightarrow>
     placeTrack featureIndex polyline currentPath currentVertex trackIndex s = Inl TypeError"
  unfolding placeTrack_def inBounds_def nth_opt_def
  by (auto split: option.splits prod.splits)

lemma placeTrack_shape:
  assumes "inBounds polyline currentPath currentVertex"
  shows "\<exists>t obs s'. placeTrack featureIndex polyline currentPath currentVertex trackIndex s = Inr s'
      \<and> trackInfos s' = trackInfos s @ [t]
      \<and> lastObservations s' = lastObservations s @ [obs]
      \<and> sameSettings s s'
      \<and> placedOn polyline (distStep (config s)) featureIndex t
      \<and> t_pathIndex t = currentPath \<and> t_vertexIndex t = currentVertex
      \<and> attr_TRACKID obs = trackIndex"
proof -
  obtain x0 y0 where v0: "polyline ! currentPath ! currentVertex = (x0, y0)"
    by (cases "polyline ! currentPath ! currentVertex") auto
  obtain x1 y1 where v1: "polyline ! currentPath ! Suc currentVertex = (x1, y1)"
    by (cases "polyline ! currentPath ! Suc currentVertex") auto
  define dist where "dist = sqrt ((x1 - x0) * (x1 - x0) + (y1 - y0) * (y1 - y0))"
  define t where "t = \<lparr>t_featureIndex = featureIndex, t_pathIndex = currentPath,
      t_vertexIndex = currentVertex, t_distanceToNextVertex = dist,
      t_accumulatedDistance = 0, t_speed = dist * distStep (config s)\<rparr>"
  have "\<exists>obs s'. placeTrack featureIndex polyline currentPath currentVertex trackIndex s = Inr s'
      \<and> trackInfos s' = trackInfos s @ [t]
      \<and> lastObservations s' = lastObservations s @ [obs]
      \<and> sameSettings s s' \<and> attr_TRACKID obs = trackIndex"
    using assms v0 v1
    by (simp add: placeTrack_def nth_opt_def inBounds_def Let_def createId_def random_def
          getIsActive_def sameSettings_def t_def dist_def)
  moreover have "placedOn polyline (distStep (config s)) featureIndex t"
    using assms v0 v1
    by (simp add: placedOn_def inBounds_def segmentLength_def t_def dist_def)
  moreover have "t_pathIndex t = currentPath" "t_vertexIndex t = currentVertex"
    by (simp_all add: t_def)
  ultimately show ?thesis by blast
qed

lemma getNextTrackStart_cases:
  assumes "currentPath < length polyline"
  obtains (stop) "getNextTrackStart polyline spacing currentPath currentVertex = Inr None"
    | (start) nextPath nextVertex
      where "getNextTrackStart polyline spacing currentPath currentVertex
               = Inr (Some (nextPath, nextVertex))"
        and "inBounds polyline nextPath nextVertex"
proof (cases "int (spacing + currentVertex) < int (length (polyline ! currentPath)) - 1")
  case True
  with assms have
    "getNextTrackStart polyline spacing currentPath currentVertex
       = Inr (Some (currentPath, spacing + currentVertex))"
    "inBounds polyline currentPath (spacing + currentVertex)"
    by (auto simp: getNextTrackStart_def nth_opt_def inBounds_def)
  then show ?thesis by (rule start)
next
  case False
  show ?thesis
  proof (cases "currentPath + 1 \<ge> length polyline \<or> length (polyline ! (currentPath + 1)) < 2")
    case True
    with False assms have
      "getNextTrackStart polyline spacing currentPath currentVertex = Inr None"
      by (auto simp: getNextTrackStart_def nth_opt_def)
    then show ?thesis by (rule stop)
  next
    case notlast: False
    with False assms have
      "getNextTrackStart polyline spacing currentPath currentVertex
         = Inr (Some (currentPath + 1, 0))"
      "inBounds polyline (currentPath + 1) 0"
      by (auto simp: getNextTrackStart_def nth_opt_def inBounds_def)
    then show ?thesis by (rule start)
  qed
qed

text \<open>
  The placements of one feature, from a start position inside a path: they never throw,
  they append one track and one observation each, and fewer than the quota are placed
  only when \<open>_getNextTrackStart\<close> found no start after the last one.
\<close>

lemma placeTracks_result:
  assumes "inBounds polyline currentPath currentVertex"
  shows "\<exists>ts obs s'.
      placeTracks featureIndex polyline numOfTracks spacing numTrack currentPath currentVertex
        trackIndex s = Inr (trackIndex + length ts, s')
      \<and> trackInfos s' = trackInfos s @ ts
      \<and> lastObservations s' = lastObservations s @ obs
      \<and> map attr_TRACKID obs = [trackIndex..<trackIndex + length ts]
      \<and> sameSettings s s'
      \<and> (\<forall>t\<in>set ts. placedOn polyline (distStep (config s)) featureIndex t)
      \<and> length ts \<le> numOfTracks - numTrack
      \<and> (numTrack < numOfTracks \<longrightarrow> ts \<noteq> [])
      \<and> (ts \<noteq> [] \<longrightarrow> length ts < numOfTracks - numTrack \<longrightarrow>
           getNextTrackStart polyline spacing (t_pathIndex (last ts)) (t_vertexIndex (last ts))
             = Inr None)"
  using assms
proof (induction featureIndex polyline numOfTracks spacing numTrack currentPath currentVertex
         trackIndex s rule: placeTracks.induct)
  case (1 featureIndex polyline numOfTracks spacing numTrack currentPath currentVertex
          trackIndex s)
  note unfold = placeTracks.simps[of featureIndex polyline numOfTracks spacing numTrack
                  currentPath currentVertex trackIndex s]
  show ?case
  proof (cases "numTrack < numOfTracks")
    case False
    then show ?thesis
      by (intro exI[of _ "[]"] exI[of _ s]) (simp add: unfold sameSettings_refl)
  next
    case True
    from placeTrack_shape[OF "1.prems", of featureIndex trackIndex s]
    obtain t ob s1 where
      pt: "placeTrack featureIndex polyline currentPath currentVertex trackIndex s = Inr s1"
      and ti1: "trackInfos s1 = trackInfos s @ [t]"
      and ob1: "lastObservations s1 = lastObservations s @ [ob]"
      and same1: "sameSettings s s1"
      and placed: "placedOn polyline (distStep (config s)) featureIndex t"
      and pos: "t_pathIndex t = currentPath" "t_vertexIndex t = currentVertex"
      and tid: "attr_TRACKID ob = trackIndex"
      by blast
    have cp: "currentPath < length polyline" using "1.prems" by (simp add: inBounds_def)
    show ?thesis
    proof (rule getNextTrackStart_cases[OF cp, of spacing currentVertex])
      assume stop: "getNextTrackStart polyline spacing currentPath currentVertex = Inr None"
      have "placeTracks featureIndex polyline numOfTracks spacing numTrack currentPath
              currentVertex trackIndex s = Inr (trackIndex + length [t], s1)"
        using True pt stop by (simp add: unfold)
      then show ?thesis
        using ti1 ob1 same1 placed pos tid stop True
        by (intro exI[of _ "[t]"] exI[of _ "[ob]"] exI[of _ s1]) simp
    next
      fix nextPath nextVertex
      assume start:
        "getNextTrackStart polyline spacing currentPath currentVertex
           = Inr (Some (nextPath, nextVertex))"
        "inBounds polyline nextPath nextVertex"
      from "1.IH"[OF True pt start(1) refl refl start(2)]
      obtain ts obs s' where
        rec: "placeTracks featureIndex polyline numOfTracks spacing (numTrack + 1) nextPath
                nextVertex (trackIndex + 1) s1 = Inr (trackIndex + 1 + length ts, s')"
        and ti2: "trackInfos s' = trackInfos s1 @ ts"
        and ob2: "lastObservations s' = lastObservations s1 @ obs"
        and tids: "map attr_TRACKID obs = [trackIndex + 1..<trackIndex + 1 + length ts]"
        and same2: "sameSettings s1 s'"
        and placed2: "\<forall>t\<in>set ts. placedOn polyline (distStep (config s1)) featureIndex t"
        and len: "length ts \<le> numOfTracks - (numTrack + 1)"
        and ne2: "numTrack + 1 < numOfTracks \<longrightarrow> ts \<noteq> []"
        and last2: "ts \<noteq> [] \<longrightarrow> length ts < numOfTracks - (numTrack + 1) \<longrightarrow>
           getNextTrackStart polyline spacing (t_pathIndex (last ts)) (t_vertexIndex (last ts))
             = Inr None"
        by blast
      have cfg: "config s1 = config s" using same1 by (simp add: sameSettings_def)
      have res: "placeTracks featureIndex polyline numOfTracks spacing numTrack currentPath
              currentVertex trackIndex s = Inr (trackIndex + length (t # ts), s')"
        using True pt start(1) rec by (simp add: unfold)
      have ids: "map attr_TRACKID (ob # obs) = [trackIndex..<trackIndex + length (t # ts)]"
        using tid tids by (simp add: upt_conv_Cons del: upt_Suc)
      have lastq: "length (t # ts) < numOfTracks - numTrack \<longrightarrow>
           getNextTrackStart polyline spacing (t_pathIndex (last (t # ts)))
             (t_vertexIndex (last (t # ts))) = Inr None"
      proof (cases "ts = []")
        case True
        then show ?thesis using ne2 by auto
      next
        case False
        then show ?thesis using last2 by auto
      qed
      show ?thesis
        using res ids lastq ti1 ti2 ob1 ob2 placed placed2 cfg len True
          sameSettings_trans[OF same1 same2]
        by (intro exI[of _ "t # ts"] exI[of _ "ob # obs"] exI[of _ s']) auto
    qed
  qed
qed

lemma placeTracks_error:
  "\<not> inBounds polyline currentPath currentVertex \<Longrightarrow> numTrack < numOfTracks \<Longrightarrow>
     placeTracks featureIndex polyline numOfTracks spacing numTrack currentPath currentVertex
       trackIndex s = Inl TypeError"
  by (simp add: placeTracks.simps placeTrack_error)

text \<open>The placements of one feature as the \<open>while\<close> loop starts them, when they return.\<close>

lemma placeTracks_first:
  assumes "placeTracks featureIndex polyline numOfTracks spacing 0 0 0 trackIndex s
             = Inr (trackIndex', s')"
  shows "\<exists>ts obs.
      trackIndex' = trackIndex + length ts
      \<and> trackInfos s' = trackInfos s @ ts
      \<and> lastObservations s' = lastObservations s @ obs
      \<and> map attr_TRACKID obs = [trackIndex..<trackIndex + length ts]
      \<and> sameSettings s s'
      \<and> (\<forall>t\<in>set ts. placedOn polyline (distStep (config s)) featureIndex t)
      \<and> length ts \<le> numOfTracks
      \<and> (0 < numOfTracks \<longrightarrow> ts \<noteq> [])
      \<and> (ts \<noteq> [] \<longrightarrow> length ts < numOfTracks \<longrightarrow>
           getNextTrackStart polyline spacing (t_pathIndex (last ts)) (t_vertexIndex (last ts))
             = Inr None)"
proof (cases "inBounds polyline 0 0")
  case True
  from placeTracks_result[OF True, of featureIndex numOfTracks spacing 0 trackIndex s] assms
  show ?thesis by auto
next
  case False
  show ?thesis
  proof (cases "0 < numOfTracks")
    case True
    with placeTracks_error[OF False True] assms show ?thesis by simp
  next
    case zero: False
    with assms have "trackIndex' = trackIndex" "s' = s"
      by (simp_all add: placeTracks.simps)
    with zero show ?thesis
      by (intro exI[of _ "[]"]) (simp add: sameSettings_refl)
  qed
qed

text \<open>
  The whole allocation, when it returns: the tracks and observations appended, feature
  by feature, and for every feature from \<open>featureIndex\<close> on what it received.
\<close>

lemma allocate_result:
  assumes "allocate features vertexSum numOfTrackedAssets featureIndex trackIndex s = Inr s'"
  shows "\<exists>ts obs.
      trackInfos s' = trackInfos s @ ts
      \<and> lastObservations s' = lastObservations s @ obs
      \<and> map attr_TRACKID obs = [trackIndex..<trackIndex + length ts]
      \<and> sameSettings s s'
      \<and> (\<forall>t\<in>set ts. featureIndex \<le> t_featureIndex t \<and> t_featureIndex t < length features
            \<and> placedOn (features ! t_featureIndex t) (distStep (config s)) (t_featureIndex t) t)
      \<and> (\<forall>f. featureIndex \<le> f \<and> f < length features \<longrightarrow>
            (let numberOfVertices = getNumberOfVertices (features ! f);
                 numOfTracks =
                   numOfTracksPerFeature numOfTrackedAssets numberOfVertices vertexSum;
                 spacing = vertexNumBetweenTracks numberOfVertices numOfTracks;
                 tf = filter (\<lambda>t. t_featureIndex t = f) ts
             in length tf \<le> numOfTracks
                \<and> (tf = [] \<longrightarrow> numOfTracks = 0 \<or>
                     numOfTrackedAssets
                       \<le> trackIndex + length (filter (\<lambda>t. t_featureIndex t < f) ts))
                \<and> (tf \<noteq> [] \<longrightarrow> length tf < numOfTracks \<longrightarrow>
                     getNextTrackStart (features ! f) spacing
                       (t_pathIndex (last tf)) (t_vertexIndex (last tf)) = Inr None)))"
  using assms
proof (induction features vertexSum numOfTrackedAssets featureIndex trackIndex s
         rule: allocate.induct)
  case (1 features vertexSum numOfTrackedAssets featureIndex trackIndex s)
  note unfold = allocate.simps[of features vertexSum numOfTrackedAssets featureIndex trackIndex s]
  show ?case
  proof (cases "trackIndex < numOfTrackedAssets")
    case False
    with "1.prems" have "s' = s" by (simp add: unfold)
    with False show ?thesis
      by (intro exI[of _ "[]"]) (simp add: sameSettings_refl Let_def)
  next
    case True
    show ?thesis
    proof (cases "featureIndex < length features")
      case False
      with True "1.prems" have "s' = s" by (simp add: unfold nth_opt_def)
      with False show ?thesis
        by (intro exI[of _ "[]"]) (simp add: sameSettings_refl Let_def)
    next
      case inside: True
      define polyline where "polyline = features ! featureIndex"
      define numberOfVertices where "numberOfVertices = getNumberOfVertices polyline"
      define numOfTracks where
        "numOfTracks = numOfTracksPerFeature numOfTrackedAssets numberOfVertices vertexSum"
      define spacing where "spacing = vertexNumBetweenTracks numberOfVertices numOfTracks"
      have nth: "nth_opt features featureIndex = Some polyline"
        using inside by (simp add: nth_opt_def polyline_def)
      from "1.prems" True nth obtain trackIndex1 s1 where
        pt: "placeTracks featureIndex polyline numOfTracks spacing 0 0 0 trackIndex s
               = Inr (trackIndex1, s1)"
        and rest: "allocate features vertexSum numOfTrackedAssets (featureIndex + 1)
                     trackIndex1 s1 = Inr s'"
        by (auto simp: unfold Let_def numberOfVertices_def numOfTracks_def spacing_def
              split: sum.splits)
      from placeTracks_first[OF pt] obtain ts1 obs1 where
        ti1: "trackIndex1 = trackIndex + length ts1"
        and tr1: "trackInfos s1 = trackInfos s @ ts1"
        and ob1: "lastObservations s1 = lastObservations s @ obs1"
        and id1: "map attr_TRACKID obs1 = [trackIndex..<trackIndex + length ts1]"
        and same1: "sameSettings s s1"
        and pl1: "\<forall>t\<in>set ts1. placedOn polyline (distStep (config s)) featureIndex t"
        and len1: "length ts1 \<le> numOfTracks"
        and ne1: "0 < numOfTracks \<longrightarrow> ts1 \<noteq> []"
        and last1: "ts1 \<noteq> [] \<longrightarrow> length ts1 < numOfTracks \<longrightarrow>
           getNextTrackStart polyline spacing (t_pathIndex (last ts1))
             (t_vertexIndex (last ts1)) = Inr None"
        by blast
      from "1.IH"[OF True nth refl refl refl pt[unfolded numOfTracks_def spacing_def
            numberOfVertices_def] refl rest]
      obtain ts2 obs2 where
        tr2: "trackInfos s' = trackInfos s1 @ ts2"
        and ob2: "lastObservations s' = lastObservations s1 @ obs2"
        and id2: "map attr_TRACKID obs2 = [trackIndex1..<trackIndex1 + length ts2]"
        and same2: "sameSettings s1 s'"
        and pl2: "\<forall>t\<in>set ts2. featureIndex + 1 \<le> t_featureIndex t
            \<and> t_featureIndex t < length features
            \<and> placedOn (features ! t_featureIndex t) (distStep (config s1))
                 (t_featureIndex t) t"
        and q2: "\<forall>f. featureIndex + 1 \<le> f \<and> f < length features \<longrightarrow>
            (let numberOfVertices = getNumberOfVertices (features ! f);
                 numOfTracks =
                   numOfTracksPerFeature numOfTrackedAssets numberOfVertices vertexSum;
                 spacing = vertexNumBetweenTracks numberOfVertices numOfTracks;
                 tf = filter (\<lambda>t. t_featureIndex t = f) ts2
             in length tf \<le> numOfTracks
                \<and> (tf = [] \<longrightarrow> numOfTracks = 0 \<or>
                     numOfTrackedAssets
                       \<le> trackIndex1 + length (filter (\<lambda>t. t_featureIndex t < f) ts2))
                \<and> (tf \<noteq> [] \<longrightarrow> length tf < numOfTracks \<longrightarrow>
                     getNextTrackStart (features ! f) spacing
                       (t_pathIndex (last tf)) (t_vertexIndex (last tf)) = Inr None))"
        by blast
      have cfg: "config s1 = config s" using same1 by (simp add: sameSettings_def)
      have f1: "\<forall>t\<in>set ts1. t_featureIndex t = featureIndex"
        using pl1 by (simp add: placedOn_def)
      have f2: "\<forall>t\<in>set ts2. featureIndex < t_featureIndex t"
        using pl2 by auto
      have ids: "map attr_TRACKID (obs1 @ obs2)
          = [trackIndex..<trackIndex + length (ts1 @ ts2)]"
      proof -
        have "[trackIndex..<trackIndex + length ts1 + length ts2] =
            [trackIndex..<trackIndex + length ts1] @
            [trackIndex + length ts1..<trackIndex + length ts1 + length ts2]"
          by (rule upt_add_eq_append) simp
        then show ?thesis using id1 id2 ti1 by (simp add: add.assoc)
      qed
      have placed: "\<forall>t\<in>set (ts1 @ ts2). featureIndex \<le> t_featureIndex t
            \<and> t_featureIndex t < length features
            \<and> placedOn (features ! t_featureIndex t) (distStep (config s)) (t_featureIndex t) t"
        using pl1 pl2 f1 inside cfg by (auto simp: polyline_def)
      have quota: "(let numberOfVertices = getNumberOfVertices (features ! f);
                 numOfTracks =
                   numOfTracksPerFeature numOfTrackedAssets numberOfVertices vertexSum;
                 spacing = vertexNumBetweenTracks numberOfVertices numOfTracks;
                 tf = filter (\<lambda>t. t_featureIndex t = f) (ts1 @ ts2)
             in length tf \<le> numOfTracks
                \<and> (tf = [] \<longrightarrow> numOfTracks = 0 \<or>
                     numOfTrackedAssets
                       \<le> trackIndex
                          + length (filter (\<lambda>t. t_featureIndex t < f) (ts1 @ ts2)))
                \<and> (tf \<noteq> [] \<longrightarrow> length tf < numOfTracks \<longrightarrow>
                     getNextTrackStart (features ! f) spacing
                       (t_pathIndex (last tf)) (t_vertexIndex (last tf)) = Inr None))"
        if f: "featureIndex \<le> f" "f < length features" for f
      proof (cases "f = featureIndex")
        case True
        have "filter (\<lambda>t. t_featureIndex t = f) ts2 = []"
          using f2 True by (auto simp: filter_empty_conv)
        moreover have "filter (\<lambda>t. t_featureIndex t = f) ts1 = ts1"
          using f1 True by (auto simp: filter_id_conv)
        ultimately show ?thesis
          using len1 ne1 last1 True
          by (auto simp: Let_def polyline_def numberOfVertices_def numOfTracks_def spacing_def)
      next
        case False
        then have lt: "featureIndex + 1 \<le> f" using f by simp
        have e1: "filter (\<lambda>t. t_featureIndex t = f) ts1 = []"
          using f1 False by (auto simp: filter_empty_conv)
        have e2: "filter (\<lambda>t. t_featureIndex t < f) ts1 = ts1"
          using f1 lt by (auto simp: filter_id_conv)
        from q2 lt f(2) show ?thesis
          by (simp add: Let_def e1 e2 ti1 add.assoc)
      qed
      show ?thesis
        using tr1 tr2 ob1 ob2 ids placed quota sameSettings_trans[OF same1 same2]
        by (intro exI[of _ "ts1 @ ts2"] exI[of _ "obs1 @ obs2"]) simp
    qed
  qed
qed

subsection \<open>The features the allocation processes\<close>

lemma allocate_step:
  assumes "trackIndex < numOfTrackedAssets" and "featureIndex < length features"
  shows "allocate features vertexSum numOfTrackedAssets featureIndex trackIndex s =
     (case placeTracks featureIndex (features ! featureIndex)
             (numOfTracksPerFeature numOfTrackedAssets
                (getNumberOfVertices (features ! featureIndex)) vertexSum)
             (vertexNumBetweenTracks (getNumberOfVertices (features ! featureIndex))
                (numOfTracksPerFeature numOfTrackedAssets
                   (getNumberOfVertices (features ! featureIndex)) vertexSum))
             0 0 0 trackIndex s of
        Inl e \<Rightarrow> Inl e
      | Inr (trackIndex', s') \<Rightarrow>
          allocate features vertexSum numOfTrackedAssets (featureIndex + 1) trackIndex' s')"
  using assms
  by (subst allocate.simps) (simp add: nth_opt_def Let_def)

lemma allocate_from_guard:
  assumes "whileGuard features vertexSum numOfTrackedAssets s0 featureIndex trackIndex s"
  shows "allocate features vertexSum numOfTrackedAssets featureIndex trackIndex s =
         allocate features vertexSum numOfTrackedAssets 0 0 s0"
  using assms
proof (induction rule: whileGuard.induct)
  case start
  show ?case by simp
next
  case (step featureIndex trackIndex s trackIndex' s')
  from allocate_step[OF step.hyps(2,3), of vertexSum s] step.hyps(4) step.IH
  show ?case by simp
qed

lemma numOfTracksPerFeature_pos:
  "0 < vertexSum \<Longrightarrow> 0 < numOfTracksPerFeature numOfTrackedAssets numberOfVertices vertexSum"
  by (simp add: numOfTracksPerFeature_div)

text \<open>A processed feature whose first path has no first segment makes the allocation throw.\<close>

lemma allocate_unusable:
  assumes "whileGuard features vertexSum numOfTrackedAssets s0 f trackIndex s"
    and "trackIndex < numOfTrackedAssets" and "f < length features"
    and "\<not> inBounds (features ! f) 0 0" and "0 < vertexSum"
  shows "allocate features vertexSum numOfTrackedAssets 0 0 s0 = Inl TypeError"
proof -
  have "allocate features vertexSum numOfTrackedAssets f trackIndex s = Inl TypeError"
    using allocate_step[OF assms(2,3), of vertexSum s]
      placeTracks_error[OF assms(4) numOfTracksPerFeature_pos[OF assms(5)]]
    by simp
  then show ?thesis using allocate_from_guard[OF assms(1)] by simp
qed

text \<open>With a first segment on every processed feature the allocation returns.\<close>

lemma allocate_usable:
  assumes "whileGuard features vertexSum numOfTrackedAssets s0 featureIndex trackIndex s"
    and "\<And>f trackIndex s. whileGuard features vertexSum numOfTrackedAssets s0 f trackIndex s \<Longrightarrow>
           trackIndex < numOfTrackedAssets \<Longrightarrow> f < length features \<Longrightarrow>
           inBounds (features ! f) 0 0"
  shows "\<exists>s'. allocate features vertexSum numOfTrackedAssets featureIndex trackIndex s = Inr s'"
  using assms(1)
proof (induction "length features - featureIndex" arbitrary: featureIndex trackIndex s)
  case 0
  then have "\<not> featureIndex < length features" by simp
  then show ?case by (subst allocate.simps) (simp add: nth_opt_def)
next
  case (Suc n)
  show ?case
  proof (cases "trackIndex < numOfTrackedAssets")
    case False
    then show ?thesis by (subst allocate.simps) simp
  next
    case True
    have inside: "featureIndex < length features" using Suc.hyps(2) by simp
    let ?polyline = "features ! featureIndex"
    let ?numOfTracks = "numOfTracksPerFeature numOfTrackedAssets
                          (getNumberOfVertices ?polyline) vertexSum"
    let ?spacing = "vertexNumBetweenTracks (getNumberOfVertices ?polyline) ?numOfTracks"
    have "inBounds ?polyline 0 0" using assms(2)[OF Suc.prems True inside] .
    from placeTracks_result[OF this, of featureIndex ?numOfTracks ?spacing 0 trackIndex s]
    obtain trackIndex' s1 where
      pt: "placeTracks featureIndex ?polyline ?numOfTracks ?spacing 0 0 0 trackIndex s
             = Inr (trackIndex', s1)"
      by blast
    have "whileGuard features vertexSum numOfTrackedAssets s0 (featureIndex + 1) trackIndex' s1"
      using whileGuard.step[OF Suc.prems True inside pt] .
    moreover have "n = length features - (featureIndex + 1)" using Suc.hyps(2) by simp
    ultimately obtain s' where
      "allocate features vertexSum numOfTrackedAssets (featureIndex + 1) trackIndex' s1 = Inr s'"
      using Suc.hyps(1) by blast
    then show ?thesis
      using allocate_step[OF True inside, of vertexSum s] pt by simp
  qed
qed

text \<open>Every processed feature receives a track, so at most \<open>trackedAssets\<close> are processed.\<close>

lemma whileGuard_progress:
  assumes "whileGuard features vertexSum numOfTrackedAssets s0 f trackIndex s"
    and "0 < vertexSum"
  shows "f \<le> trackIndex"
  using assms(1)
proof (induction rule: whileGuard.induct)
  case start
  show ?case by simp
next
  case (step featureIndex trackIndex s trackIndex' s')
  from placeTracks_first[OF step.hyps(4)]
  obtain ts :: "trackInfo list" where "trackIndex' = trackIndex + length ts"
    and "0 < numOfTracksPerFeature numOfTrackedAssets
               (getNumberOfVertices (features ! featureIndex)) vertexSum \<longrightarrow> ts \<noteq> []"
    by (elim exE conjE) (rule that; assumption)
  with numOfTracksPerFeature_pos[OF assms(2)]
  have "trackIndex' = trackIndex + length ts" "ts \<noteq> []" by simp_all
  then have "trackIndex < trackIndex'" by (cases ts) auto
  with step.IH show ?case by simp
qed

lemma processed_less:
  "processed features s0 f \<Longrightarrow> 0 < sumPolylineVertices features \<Longrightarrow>
     f < trackedAssets (config s0)"
  unfolding processed_def by (auto dest: whileGuard_progress)

lemma processed_first:
  "0 < length features \<Longrightarrow> 0 < trackedAssets (config s0) \<Longrightarrow> processed features s0 0"
  unfolding processed_def using whileGuard.start by blast

lemma initialize_allocate:
  "initialize features s0 =
     allocate features (sumPolylineVertices features) (trackedAssets (config s0)) 0 0
       (s0\<lparr>polylines := Some features\<rparr>)"
  by (simp add: initialize_def private_initialize_def)

lemma inBounds_first:
  "inBounds polyline 0 0 \<longleftrightarrow> 0 < length polyline \<and> 2 \<le> length (polyline ! 0)"
  by (auto simp: inBounds_def)

lemma initialize_result:
  assumes "initialize features s0 = Inr s"
  shows "\<exists>ts obs.
      trackInfos s = trackInfos s0 @ ts
      \<and> lastObservations s = lastObservations s0 @ obs
      \<and> map attr_TRACKID obs = [0..<length ts]
      \<and> config s = config s0 \<and> page s = page s0 \<and> polylines s = Some features
      \<and> numCyclesSinceLastActiveUpdate s = numCyclesSinceLastActiveUpdate s0
      \<and> (\<forall>t\<in>set ts. t_featureIndex t < length features
            \<and> placedOn (features ! t_featureIndex t) (distStep (config s0)) (t_featureIndex t) t)
      \<and> (\<forall>f. f < length features \<longrightarrow>
            (let numberOfVertices = getNumberOfVertices (features ! f);
                 numOfTracks = numOfTracksPerFeature (trackedAssets (config s0))
                                 numberOfVertices (sumPolylineVertices features);
                 spacing = vertexNumBetweenTracks numberOfVertices numOfTracks;
                 tf = filter (\<lambda>t. t_featureIndex t = f) ts
             in length tf \<le> numOfTracks
                \<and> (tf = [] \<longrightarrow> numOfTracks = 0 \<or>
                     trackedAssets (config s0)
                       \<le> length (filter (\<lambda>t. t_featureIndex t < f) ts))
                \<and> (tf \<noteq> [] \<longrightarrow> length tf < numOfTracks \<longrightarrow>
                     getNextTrackStart (features ! f) spacing
                       (t_pathIndex (last tf)) (t_vertexIndex (last tf)) = Inr None)))"
proof -
  from allocate_result[OF assms[unfolded initialize_allocate]]
  obtain ts obs where
    "trackInfos s = trackInfos (s0\<lparr>polylines := Some features\<rparr>) @ ts"
    "lastObservations s = lastObservations (s0\<lparr>polylines := Some features\<rparr>) @ obs"
    "map attr_TRACKID obs = [0..<0 + length ts]"
    "sameSettings (s0\<lparr>polylines := Some features\<rparr>) s"
    "\<forall>t\<in>set ts. 0 \<le> t_featureIndex t \<and> t_featureIndex t < length features
        \<and> placedOn (features ! t_featureIndex t)
             (distStep (config (s0\<lparr>polylines := Some features\<rparr>))) (t_featureIndex t) t"
    "\<forall>f. 0 \<le> f \<and> f < length features \<longrightarrow>
            (let numberOfVertices = getNumberOfVertices (features ! f);
                 numOfTracks = numOfTracksPerFeature (trackedAssets (config s0))
                                 numberOfVertices (sumPolylineVertices features);
                 spacing = vertexNumBetweenTracks numberOfVertices numOfTracks;
                 tf = filter (\<lambda>t. t_featureIndex t = f) ts
             in length tf \<le> numOfTracks
                \<and> (tf = [] \<longrightarrow> numOfTracks = 0 \<or>
                     trackedAssets (config s0)
                       \<le> 0 + length (filter (\<lambda>t. t_featureIndex t < f) ts))
                \<and> (tf \<noteq> [] \<longrightarrow> length tf < numOfTracks \<longrightarrow>
                     getNextTrackStart (features ! f) spacing
                       (t_pathIndex (last tf)) (t_vertexIndex (last tf)) = Inr None))"
    by blast
  then show ?thesis
    by (intro exI[of _ ts] exI[of _ obs]) (simp add: sameSettings_def)
qed

lemma initialize_usable:
  assumes "\<forall>f < length features. inBounds (features ! f) 0 0"
  shows "\<exists>s. initialize features s0 = Inr s"
  unfolding initialize_allocate
  using assms by (intro allocate_usable[OF whileGuard.start]) simp

subsection \<open>Ticks that return\<close>

lemma placedOn_onSegment:
  "f < length features \<Longrightarrow> placedOn (features ! f) dStep f t \<Longrightarrow> onSegment features t"
  by (simp add: placedOn_def onSegment_def inBounds_def)

lemma lookupSegment_onSegment:
  assumes "onSegment features t"
  shows "\<exists>vertex vertexNext.
     lookupSegment (Some features) t =
       Inr (features ! t_featureIndex t, features ! t_featureIndex t ! t_pathIndex t,
            vertex, vertexNext)"
  using assms by (simp add: onSegment_def inBounds_def lookupSegment_def nth_opt_def)

text \<open>
  After a lookup that succeeded the transition reads inside the path it keeps: at the
  next vertex when that is not the last one, at the vertices 0 and 1 otherwise.
\<close>

lemma updateTrackInfo_total:
  assumes "t_pathIndex t < length paths" and "path = paths ! t_pathIndex t"
    and "t_vertexIndex t + 1 < length path"
  shows "\<exists>t'. updateTrackInfo paths path t = Inr t'"
proof (cases "t_accumulatedDistance t + t_speed t + t_speed t \<ge> t_distanceToNextVertex t")
  case False
  then show ?thesis by (simp add: updateTrackInfo_def Let_def)
next
  case True
  obtain path' pathIndex vertexIndex where
    adv: "advanceVertex paths path (t_pathIndex t) (t_vertexIndex t)
            = (path', pathIndex, vertexIndex)"
    by (cases "advanceVertex paths path (t_pathIndex t) (t_vertexIndex t)") auto
  have "path' = Some path \<and> vertexIndex + 1 < length path"
    using adv assms by (auto simp: advanceVertex_def nth_opt_def split: if_splits)
  then obtain x0 y0 x1 y1 where
    "path' = Some path" "nth_opt path vertexIndex = Some (x0, y0)"
    "nth_opt path (vertexIndex + 1) = Some (x1, y1)"
    by (cases "path ! vertexIndex"; cases "path ! (vertexIndex + 1)")
       (auto simp: nth_opt_def)
  then show ?thesis using True adv by (simp add: updateTrackInfo_def Let_def)
qed

lemma updateTrack_total:
  assumes "onSegment features (trackInfos s ! index)"
    and "index < length (lastObservations s)"
  shows "\<exists>s'. updateTrack (Some features) index s = Inr s'"
proof -
  let ?t = "trackInfos s ! index"
  let ?paths = "features ! t_featureIndex ?t"
  from lookupSegment_onSegment[OF assms(1)] obtain vertex vertexNext where
    look: "lookupSegment (Some features) ?t =
       Inr (?paths, ?paths ! t_pathIndex ?t, vertex, vertexNext)"
    by blast
  have "\<exists>t'. updateTrackInfo ?paths (?paths ! t_pathIndex ?t) ?t = Inr t'"
    using assms(1) by (intro updateTrackInfo_total) (simp_all add: onSegment_def inBounds_def)
  then obtain t' where info: "updateTrackInfo ?paths (?paths ! t_pathIndex ?t) ?t = Inr t'"
    by blast
  show ?thesis
    using look info assms(2)
    by (simp add: updateTrack_def Let_def nth_opt_def split: prod.splits)
qed

lemma updateLoop_total:
  assumes "\<forall>j. index \<le> j \<and> j < length (trackInfos s) \<longrightarrow> onSegment features (trackInfos s ! j)"
    and "length (trackInfos s) \<le> length (lastObservations s)"
  shows "\<exists>s'. updateLoop (Some features) index s = Inr s'"
  using assms
proof (induction "length (trackInfos s) - index" arbitrary: index s)
  case 0
  then show ?case by (subst updateLoop.simps) simp
next
  case (Suc n)
  have inside: "index < length (trackInfos s)" using Suc.hyps(2) by simp
  from updateTrack_total[of features s index] Suc.prems inside
  obtain s1 where step: "updateTrack (Some features) index s = Inr s1" by auto
  from updateTrack_shape[OF step] obtain t' obs' c r where
    s1: "s1 = s\<lparr>idCounter := c, randomPos := r,
             lastObservations := (lastObservations s)[index := obs'],
             trackInfos := (trackInfos s)[index := t']\<rparr>"
    by blast
  have "\<exists>s'. updateLoop (Some features) (index + 1) s1 = Inr s'"
  proof (rule Suc.hyps(1))
    show "n = length (trackInfos s1) - (index + 1)" using Suc.hyps(2) s1 by simp
    show "\<forall>j. index + 1 \<le> j \<and> j < length (trackInfos s1) \<longrightarrow>
            onSegment features (trackInfos s1 ! j)"
      using Suc.prems(1) s1 by simp
    show "length (trackInfos s1) \<le> length (lastObservations s1)"
      using Suc.prems(2) s1 by simp
  qed
  then show ?case using inside step by (subst updateLoop.simps) simp
qed

lemma updatePositions_total:
  assumes "\<forall>t\<in>set (trackInfos s). onSegment features t"
    and "length (trackInfos s) \<le> length (lastObservations s)"
  shows "\<exists>s'. updatePositions (Some features) s = Inr s'"
proof -
  have "\<exists>s'. updateLoop (Some features) 0
          (s\<lparr>numCyclesSinceLastActiveUpdate := numCyclesSinceLastActiveUpdate s + 1\<rparr>) = Inr s'"
    using assms by (intro updateLoop_total) simp_all
  then show ?thesis by (auto simp: updatePositions_def)
qed

text \<open>The first tick after an initialization that returned does not throw.\<close>

lemma first_tick_returns:
  assumes "initialize features s0 = Inr s"
    and "trackInfos s0 = []" and "lastObservations s0 = []"
  shows "\<exists>s'. updatePositions (polylines s) s = Inr s'"
proof -
  from initialize_result[OF assms(1)] assms(2,3) obtain obs where
    "lastObservations s = obs" "map attr_TRACKID obs = [0..<length (trackInfos s)]"
    and pl: "polylines s = Some features"
    and placed: "\<forall>t\<in>set (trackInfos s). t_featureIndex t < length features
            \<and> placedOn (features ! t_featureIndex t) (distStep (config s0)) (t_featureIndex t) t"
    by auto
  then have "length (lastObservations s) = length (trackInfos s)"
    by (metis length_map length_upt diff_zero)
  moreover have "\<forall>t\<in>set (trackInfos s). onSegment features t"
    using placed placedOn_onSegment by blast
  ultimately show ?thesis unfolding pl by (intro updatePositions_total) simp_all
qed

subsection \<open>The pages of a cycle\<close>

text \<open>The track numbers on the page a request returns.\<close>

lemma trackIds_page:
  assumes "map attr_TRACKID observations = [0..<n]" and "stop \<le> n"
  shows "trackIds (replicate start None @ map (nth_opt observations) [start..<stop]) =
     replicate start None @ map Some [start..<stop]"
proof -
  have len: "length observations = n"
    using assms(1) by (metis length_map length_upt diff_zero)
  have "map_option attr_TRACKID (nth_opt observations j) = Some j" if "j < stop" for j
  proof -
    have j: "j < n" using that assms(2) by simp
    then have "attr_TRACKID (observations ! j) = map attr_TRACKID observations ! j"
      using len by simp
    also have "\<dots> = j" using j by (simp add: assms(1))
    finally show ?thesis using j len by (simp add: nth_opt_def)
  qed
  then show ?thesis by (simp add: trackIds_def)
qed

lemma next_features_trackIds:
  assumes "next_features s = Inr (features, s')"
    and "map attr_TRACKID (lastObservations s) = [0..<n]"
    and "trackedAssets (config s) \<le> n"
    and "trackedAssets (config s) \<le> 0xffffffff"
  shows "trackIds features =
     (let start = page s * pageSize (config s);
          stop = min (start + pageSize (config s)) (trackedAssets (config s))
      in if start < stop then replicate start None @ map Some [start..<stop] else [])"
proof -
  have ids: "map attr_TRACKID (lastObservations s') = [0..<n]"
    using next_features_frame[OF assms(1)] assms(2) by simp
  let ?start = "page s * pageSize (config s)"
  let ?stop = "min (?start + pageSize (config s)) (trackedAssets (config s))"
  have obs: "\<exists>p. s' = s2\<lparr>page := p\<rparr> \<Longrightarrow> lastObservations s2 = lastObservations s'" for s2
    by auto
  have "features = (if ?start < ?stop
          then replicate ?start None @ map (nth_opt (lastObservations s')) [?start..<?stop]
          else [])"
    using assms(1) unfolding next_features_eq[OF assms(4)] Let_def
    by (auto split: sum.splits if_splits)
  moreover have "?stop \<le> n" using assms(3) by simp
  ultimately show ?thesis
    using trackIds_page[OF ids \<open>?stop \<le> n\<close>, of ?start]
    by (simp add: Let_def trackIds_def)
qed

text \<open>
  On one feature with one path of 2 vertices every start is vertex 0 (the distance
  between starts is \<open>floor(1.6 / 25) = 0\<close>), so all 25 tracks are placed.
\<close>

lemma claimed_initialize:
  "\<exists>s. initialize [[stub]] (newService claimed_config rnd) = Inr s
     \<and> map attr_TRACKID (lastObservations s) = [0..<25]
     \<and> length (trackInfos s) = 25
     \<and> config s = claimed_config \<and> page s = 0"
proof -
  let ?s0 = "newService claimed_config rnd"
  have "\<forall>f < length [[stub]]. inBounds ([[stub]] ! f) 0 0"
    by (simp add: inBounds_def stub_def)
  from initialize_usable[OF this] obtain s where init: "initialize [[stub]] ?s0 = Inr s"
    by blast
  have s0: "trackInfos ?s0 = []" "lastObservations ?s0 = []" "config ?s0 = claimed_config"
    "page ?s0 = 0"
    by (simp_all add: newService_def)
  from initialize_result[OF init] s0 have
    ids: "map attr_TRACKID (lastObservations s) = [0..<length (trackInfos s)]"
    and cfg: "config s = claimed_config" "page s = 0"
    and placed: "\<forall>t\<in>set (trackInfos s). t_featureIndex t < length [[stub]]
            \<and> placedOn ([[stub]] ! t_featureIndex t) (distStep claimed_config)
                 (t_featureIndex t) t"
    by auto
  have f0: "filter (\<lambda>t. t_featureIndex t = 0) (trackInfos s) = trackInfos s"
    using placed by (auto simp: filter_id_conv)
  have spot: "t_pathIndex t = 0 \<and> t_vertexIndex t = 0" if "t \<in> set (trackInfos s)" for t
    using placed that by (auto simp: placedOn_def stub_def)
  have nv: "getNumberOfVertices [stub] = 2" "sumPolylineVertices [[stub]] = 2"
    by (simp_all add: getNumberOfVertices_def sumPolylineVertices_def stub_def)
  have quota: "numOfTracksPerFeature 25 2 2 = 25" "vertexNumBetweenTracks 2 25 = 0"
    by (simp_all add: numOfTracksPerFeature_div vertexNumBetweenTracks_div)
  from initialize_result[OF init] s0 have
    "(let numberOfVertices = getNumberOfVertices ([[stub]] ! 0);
          numOfTracks = numOfTracksPerFeature (trackedAssets claimed_config)
                          numberOfVertices (sumPolylineVertices [[stub]]);
          spacing = vertexNumBetweenTracks numberOfVertices numOfTracks;
          tf = filter (\<lambda>t. t_featureIndex t = 0) (trackInfos s)
      in length tf \<le> numOfTracks
         \<and> (tf = [] \<longrightarrow> numOfTracks = 0 \<or>
              trackedAssets claimed_config
                \<le> length (filter (\<lambda>t. t_featureIndex t < 0) (trackInfos s)))
         \<and> (tf \<noteq> [] \<longrightarrow> length tf < numOfTracks \<longrightarrow>
              getNextTrackStart ([[stub]] ! 0) spacing
                (t_pathIndex (last tf)) (t_vertexIndex (last tf)) = Inr None))"
    by auto
  then have le: "length (trackInfos s) \<le> 25"
    and ne: "trackInfos s \<noteq> []"
    and early: "length (trackInfos s) < 25 \<longrightarrow>
       getNextTrackStart [stub] 0
         (t_pathIndex (last (trackInfos s))) (t_vertexIndex (last (trackInfos s))) = Inr None"
    by (auto simp: Let_def f0 nv quota claimed_config_def)
  have "getNextTrackStart [stub] 0
         (t_pathIndex (last (trackInfos s))) (t_vertexIndex (last (trackInfos s)))
       = Inr (Some (0, 0))"
    using spot[OF last_in_set[OF ne]]
    by (simp add: getNextTrackStart_def nth_opt_def stub_def)
  with le early have "length (trackInfos s) = 25" by auto
  with init ids cfg show ?thesis by auto
qed

subsection \<open>Requests before the initialization\<close>

lemma updatePositions_no_tracks:
  assumes "trackInfos s = []"
  shows "updatePositions polylines_arg s =
     Inr (s\<lparr>numCyclesSinceLastActiveUpdate :=
              (if NumCyclesBetweenActiveUpdate \<le> numCyclesSinceLastActiveUpdate s + 1 then 0
               else numCyclesSinceLastActiveUpdate s + 1)\<rparr>)"
  using assms by (simp add: updatePositions_def updateLoop.simps)

lemma next_features_empty:
  assumes "emptyService s"
  shows "\<exists>features s'. next_features s = Inr (features, s') \<and> set features \<subseteq> {None}
     \<and> emptyService s'"
proof -
  let ?start = "page s * pageSize (config s)"
  let ?stop = "min (?start + pageSize (config s)) (trackedAssets (config s))"
  have le: "\<not> ?stop < ?start" using assms by (auto simp: emptyService_def)
  have "min (a + b) c - a \<le> min b c" for a b c :: nat by arith
  from this[of ?start "pageSize (config s)" "trackedAssets (config s)"]
  have len: "\<not> 0xffffffff < ?stop - ?start"
    using assms unfolding emptyService_def by linarith
  have holes: "set (copyObservations [] ?start ?stop (replicate (?stop - ?start) None))
      \<subseteq> {None}"
    by (rule copyObservations_holes) (auto simp: set_replicate_conv_if)
  show ?thesis
    using assms le len holes
    unfolding next_features_unfold Let_def emptyService_def
    by (auto simp: updatePositions_no_tracks)
qed

lemma requests_empty:
  assumes "emptyService s"
  shows "\<exists>pages s'. requests n s = Inr (pages, s') \<and> length pages = n
     \<and> (\<forall>features\<in>set pages. set features \<subseteq> {None}) \<and> emptyService s'"
  using assms
proof (induction n arbitrary: s)
  case 0
  then show ?case by simp
next
  case (Suc n)
  from next_features_empty[OF Suc.prems] obtain features s1 where
    first: "next_features s = Inr (features, s1)" and none: "set features \<subseteq> {None}"
    and empty: "emptyService s1"
    by blast
  from Suc.IH[OF empty] obtain pages s' where
    "requests n s1 = Inr (pages, s')" "length pages = n"
    "\<forall>features\<in>set pages. set features \<subseteq> {None}" "emptyService s'"
    by blast
  with first none show ?case
    by (intro exI[of _ "features # pages"] exI[of _ s']) simp
qed

section \<open>The claims\<close>

subsection \<open>C1: the speed of a track\<close>

text \<open>
  C1. On \<open>overrun_features\<close>, the path \<open>(0,0), (10,0), (10,1)\<close>, with \<open>trackedAssets = 1\<close>
  and \<open>distStep = 0.5\<close>, the allocation stores the segment length 10 and the speed
  \<open>10 * 0.5 = 5\<close>. The first tick reports \<open>(5, 0)\<close> and resolves the transition to the
  segment from \<open>(10,0)\<close> to \<open>(10,1)\<close>: the track record then holds the new segment length
  1 and still the speed 5, where the length of the current segment times \<open>distStep\<close> is
  \<open>0.5\<close>. The second tick advances by that speed on the segment of length 1 and
  reports \<open>(10, 5)\<close>, a point 4 units past the end of the segment.
\<close>

theorem speed_is_stale_after_transition:
  "map_sum id (\<lambda>(pages, s).
       map (\<lambda>t. (currentSegment overrun_features t, t_distanceToNextVertex t, t_speed t,
                  t_distanceToNextVertex t * distStep unit_config))
         (trackInfos s))
     (session unit_config rnd overrun_features 0)
   = Inr [(Some ((0, 0), (10, 0)), 10, 5, 5)]
   \<and> map_sum id (\<lambda>(pages, s).
       map (\<lambda>t. (currentSegment overrun_features t, t_distanceToNextVertex t, t_speed t,
                  t_distanceToNextVertex t * distStep unit_config))
         (trackInfos s))
     (session unit_config rnd overrun_features 1)
   = Inr [(Some ((10, 0), (10, 1)), 1, 5, 1 / 2)]
   \<and> map_sum id (\<lambda>(pages, s). map (map (map_option position)) pages)
       (session unit_config rnd overrun_features 2)
     = Inr [[Some (Some 5, Some 0)], [Some (Some 10, Some 5)]]"
  by (simp add: eval_allocate eval_update eval_next unit_config_def overrun_features_def
        numeral_2_eq_2 sqrt_100)

subsection \<open>C2: the transition to the next path\<close>

text \<open>
  C2. On \<open>forked_features\<close> with \<open>trackedAssets = 1\<close> and \<open>distStep = 0.5\<close> the first
  tick ends path 0: the track record then holds path 1, vertex 0 and the accumulated
  distance 0, but the segment length 1, which is the length of the first segment of
  path 0; the first segment of path 1 has length 2. The second tick ends path 1 and
  wraps: the record holds path 0, vertex 0 and the segment length 2 of path 1, where
  the first segment of path 0 has length 1.
\<close>

theorem transition_measures_the_old_path:
  "map_sum id (\<lambda>(pages, s).
       map (\<lambda>t. (t_pathIndex t, t_vertexIndex t, t_accumulatedDistance t,
                  t_distanceToNextVertex t,
                  map_option segmentLength (currentSegment forked_features t)))
         (trackInfos s))
     (session unit_config rnd forked_features 1)
   = Inr [(1, 0, 0, 1, Some 2)]
   \<and> map_sum id (\<lambda>(pages, s).
       map (\<lambda>t. (t_pathIndex t, t_vertexIndex t, t_accumulatedDistance t,
                  t_distanceToNextVertex t,
                  map_option segmentLength (currentSegment forked_features t)))
         (trackInfos s))
     (session unit_config rnd forked_features 2)
   = Inr [(0, 0, 0, 2, Some 1)]"
  by (simp add: eval_allocate eval_update eval_next unit_config_def forked_features_def
        numeral_2_eq_2)

subsection \<open>C3: the array a request returns\<close>

text \<open>
  C3. With \<open>trackedAssets = 25\<close> and \<open>pageSize = 10\<close>, 25 tracks and three requests in a
  row: the first returns the observations of the tracks 0 to 9. The second returns an
  array of 20 entries, 10 \<open>null\<close>s followed by the tracks 10 to 19, and the third one of
  25 entries, 20 \<open>null\<close>s followed by the tracks 20 to 24: the output array is created
  with \<open>end - start\<close> slots and then written at the indices \<open>start\<close> to \<open>end - 1\<close>.
\<close>

theorem later_pages_start_with_holes:
  "map_sum id (\<lambda>(pages, s). map trackIds pages) (session claimed_config rnd [[stub]] 3)
   = Inr [map Some [0..<10],
          replicate 10 None @ map Some [10..<20],
          replicate 20 None @ map Some [20..<25]]"
proof -
  from claimed_initialize[of rnd] obtain s0 where
    init: "initialize [[stub]] (newService claimed_config rnd) = Inr s0"
    and ids0: "map attr_TRACKID (lastObservations s0) = [0..<25]"
    and len0: "length (trackInfos s0) = 25"
    and cfg0: "config s0 = claimed_config" and page0: "page s0 = 0"
    by blast
  have T: "trackedAssets claimed_config = 25" and ps: "pageSize claimed_config = 10"
    by (simp_all add: claimed_config_def)
  have "\<exists>s1. updatePositions (polylines s0) s0 = Inr s1"
    by (rule first_tick_returns[OF init]) (simp_all add: newService_def)
  then obtain s1 where tick: "updatePositions (polylines s0) s0 = Inr s1" by blast
  from updatePositions_frame[OF tick] have
    cfg1: "config s1 = claimed_config" and ids1: "map attr_TRACKID (lastObservations s1) = [0..<25]"
    using cfg0 ids0 by simp_all
  obtain features1 where
    r1: "next_features s0 = Inr (features1, s1\<lparr>page := 1\<rparr>)"
    using tick unfolding next_features_unfold Let_def by (simp add: page0 cfg0 T ps)
  obtain features2 where
    r2: "next_features (s1\<lparr>page := 1\<rparr>) = Inr (features2, s1\<lparr>page := 2\<rparr>)"
    unfolding next_features_unfold Let_def by (simp add: cfg1 T ps)
  obtain features3 where
    r3: "next_features (s1\<lparr>page := 2\<rparr>) = Inr (features3, s1\<lparr>page := 0\<rparr>)"
    unfolding next_features_unfold Let_def by (simp add: cfg1 T ps)
  have t1: "trackIds features1 = map Some [0..<10]"
    using next_features_trackIds[OF r1 ids0] by (simp add: page0 cfg0 T ps Let_def)
  have t2: "trackIds features2 = replicate 10 None @ map Some [10..<20]"
    using next_features_trackIds[OF r2, of 25] ids1 by (simp add: cfg1 T ps Let_def)
  have t3: "trackIds features3 = replicate 20 None @ map Some [20..<25]"
    using next_features_trackIds[OF r3, of 25] ids1 by (simp add: cfg1 T ps Let_def)
  have "requests 3 s0 = Inr ([features1, features2, features3], s1\<lparr>page := 0\<rparr>)"
    using r1 r2 r3 by (simp add: numeral_3_eq_3)
  then show ?thesis
    using init t1 t2 t3 by (simp add: session_def)
qed

subsection \<open>C4: the number of tracks\<close>

text \<open>
  C4. With \<open>trackedAssets = 3\<close> on \<open>overshoot_features\<close> the allocation returns with 4
  track records and 4 observations: the first two features receive one track each,
  and the third, which is entered with 2 tracks placed, receives its whole quota of 2.
\<close>

theorem allocation_overshoots:
  "map_sum id (\<lambda>s. (length (trackInfos s), length (lastObservations s),
                     map t_featureIndex (trackInfos s)))
     (initialize overshoot_features (newService overshoot_config rnd))
   = Inr (4, 4, [0, 1, 2, 2])"
  by (simp add: eval_allocate overshoot_config_def overshoot_features_def stub_def)

subsection \<open>C5: the identifiers\<close>

text \<open>
  C5. The generator starts at 1 and counts up by 1, but the counter is reduced modulo
  \<open>0xfffffffe\<close>, so after \<open>0xfffffffd\<close> (4294967293) comes 0: the call that follows
  4294967293 earlier calls on a new service returns the identifier 0.
\<close>

theorem createId_emits_zero:
  "fst (createId (createIds 4294967293 (newService cfg rnd))) = 0"
  by (simp add: createId_def idCounter_createIds newService_def)

subsection \<open>C6: one tick per cycle\<close>

text \<open>
  C6 (as amended). The cycle of the pager has \<open>n = \<lceil>trackedAssets / pageSize\<rceil>\<close> requests,
  where \<open>trackedAssets\<close> is the configured number, whatever the number of tracks the
  allocation has created. Take a service at the start of a cycle (\<open>page = 0\<close>) with
  \<open>trackedAssets > 0\<close> and \<open>pageSize > 0\<close>. When \<open>pageSize\<close> or \<open>trackedAssets\<close> is at most
  \<open>2 ^ 32 - 1\<close> and \<open>trackedAssets\<close> is at most \<open>2 ^ 53\<close>: after the first \<open>k\<close> requests of the cycle, for every \<open>k\<close> from 1 to \<open>n\<close>,
  the state is the state after exactly one call of \<open>_updatePositions\<close> on the state the
  cycle started in, with the page moved to \<open>k mod n\<close>: the first request runs the
  simulator once and the other requests of the cycle do not run it. If that one call
  throws, the first request throws. After the \<open>n\<close> requests the page is 0 again, so the
  next cycle starts the same way. When both \<open>pageSize\<close> and \<open>trackedAssets\<close> are above
  \<open>2 ^ 32 - 1\<close>, the first request throws a \<open>RangeError\<close> before the simulator is run. A
  call of \<open>_updatePositions\<close> always changes the counter of cycles, so the state after
  one call differs from the state after none and from the state after two.
\<close>

theorem one_tick_per_cycle:
  assumes "0 < trackedAssets (config s)" and "0 < pageSize (config s)" and "page s = 0"
  shows "(pageFitsArray (config s) \<longrightarrow> exactPaging (config s) \<longrightarrow>
      1 \<le> k \<longrightarrow> k \<le> cycleLength (config s) \<longrightarrow>
      map_sum id snd (requests k s) =
        map_sum id (\<lambda>s1. s1\<lparr>page := k mod cycleLength (config s)\<rparr>)
          (updatePositions (polylines s) s))
   \<and> (\<not> pageFitsArray (config s) \<longrightarrow> next_features s = Inl RangeError)
   \<and> (\<forall>polylines_arg s1 s2.
         updatePositions polylines_arg s1 = Inr s2 \<longrightarrow>
         numCyclesSinceLastActiveUpdate s2 \<noteq> numCyclesSinceLastActiveUpdate s1)"
proof (intro conjI impI)
  show "\<forall>polylines_arg s1 s2.
         updatePositions polylines_arg s1 = Inr s2 \<longrightarrow>
         numCyclesSinceLastActiveUpdate s2 \<noteq> numCyclesSinceLastActiveUpdate s1"
    by (auto dest!: updatePositions_counter simp: NumCyclesBetweenActiveUpdate_def
          split: if_splits)
next
  assume "\<not> pageFitsArray (config s)"
  with assms(3) show "next_features s = Inl RangeError"
    by (rule next_features_too_long)
next
  let ?n = "cycleLength (config s)"
  assume fits: "pageFitsArray (config s)" and k1: "1 \<le> k" and kn: "k \<le> ?n"
  let ?goal = "map_sum id snd (requests k s) =
     map_sum id (\<lambda>s1. s1\<lparr>page := k mod ?n\<rparr>) (updatePositions (polylines s) s)"
  obtain m where k: "k = Suc m" using k1 by (cases k) auto
  have n: "0 < ?n" using k1 kn by simp
  have first: "map_sum id snd (next_features s) =
     map_sum id (\<lambda>s'. s'\<lparr>page := Suc 0 mod ?n\<rparr>) (updatePositions (polylines s) s)"
    using request_in_cycle[OF assms(2) _ fits] n assms(3) by simp
  show ?goal
  proof (cases "updatePositions (polylines s) s")
    case (Inl e)
    then show ?thesis using first unfolding k by (cases "next_features s") auto
  next
    case (Inr s1)
    then obtain features where
      nf: "next_features s = Inr (features, s1\<lparr>page := Suc 0 mod ?n\<rparr>)"
      using first by (cases "next_features s") auto
    have cfg: "config s1 = config s" and pg: "page s1 = page s"
      using updatePositions_frame[OF Inr] by simp_all
    show ?thesis
    proof (cases "m = 0")
      case True
      then show ?thesis using nf Inr unfolding k by simp
    next
      case False
      then have n1: "1 < ?n" using kn k by simp
      let ?s2 = "s1\<lparr>page := Suc 0\<rparr>"
      have "map_sum id snd (requests m ?s2) =
          Inr (?s2\<lparr>page := (page ?s2 + m) mod cycleLength (config ?s2)\<rparr>)"
        by (rule requests_rest_of_cycle) (use assms k kn fits cfg n1 in simp_all)
      then show ?thesis using nf n1 Inr cfg unfolding k
        by (cases "requests m ?s2") (auto simp: mod_less)
    qed
  qed
qed

text \<open>
  The claim as it was stated fails for \<open>trackedAssets = 3\<close> and \<open>pageSize = 2\<close> on
  \<open>sparse_features\<close>: the allocation creates 2 tracks, so with the number of tracks for
  \<open>trackCount\<close> a cycle is \<open>\<lceil>2 / 2\<rceil> = 1\<close> request and every request would run the
  simulator. The second request runs no tick: the identifier counter and the counter
  of cycles are those after the first request (each tick creates 2 identifiers).
\<close>

theorem one_tick_per_cycle_counterexample:
  "map_sum id (\<lambda>(pages, s). (length (trackInfos s), idCounter s,
                              numCyclesSinceLastActiveUpdate s, page s))
     (session paged_config (\<lambda>_. 0) sparse_features 0) = Inr (2, 3, 0, 0)
   \<and> map_sum id (\<lambda>(pages, s). (length (trackInfos s), idCounter s,
                                numCyclesSinceLastActiveUpdate s, page s))
       (session paged_config (\<lambda>_. 0) sparse_features 1) = Inr (2, 5, 1, 1)
   \<and> map_sum id (\<lambda>(pages, s). (length (trackInfos s), idCounter s,
                                numCyclesSinceLastActiveUpdate s, page s))
       (session paged_config (\<lambda>_. 0) sparse_features 2) = Inr (2, 5, 1, 0)"
  by (simp add: eval_allocate eval_update eval_next paged_config_def sparse_features_def
        stub_def numeral_2_eq_2)

text \<open>
  The theorem for 25 tracks in pages of 10: the cycle has 3 requests, and after 1, 2
  and 3 of them the state is the state after one tick with the page 1, 2 and 0; the
  tick has changed the counter of cycles. And for \<open>2 ^ 32\<close> assets in one page: the
  request throws.
\<close>

theorem one_tick_per_cycle_witness:
  "(\<exists>s0 s1. initialize [[stub]] (newService claimed_config (\<lambda>_. 0)) = Inr s0
     \<and> 0 < trackedAssets (config s0) \<and> 0 < pageSize (config s0) \<and> page s0 = 0
     \<and> pageFitsArray (config s0) \<and> exactPaging (config s0)
     \<and> cycleLength (config s0) = 3
     \<and> updatePositions (polylines s0) s0 = Inr s1
     \<and> map_sum id snd (requests 1 s0) = Inr (s1\<lparr>page := 1\<rparr>)
     \<and> map_sum id snd (requests 2 s0) = Inr (s1\<lparr>page := 2\<rparr>)
     \<and> map_sum id snd (requests 3 s0) = Inr (s1\<lparr>page := 0\<rparr>)
     \<and> numCyclesSinceLastActiveUpdate s1 \<noteq> numCyclesSinceLastActiveUpdate s0)
   \<and> \<not> pageFitsArray oversized_config
   \<and> next_features (newService oversized_config (\<lambda>_. 0)) = Inl RangeError"
proof (intro conjI)
  from claimed_initialize[of "\<lambda>_. 0"] obtain s0 where
    init: "initialize [[stub]] (newService claimed_config (\<lambda>_. 0)) = Inr s0"
    and cfg0: "config s0 = claimed_config" and page0: "page s0 = 0"
    by blast
  have "\<exists>s1. updatePositions (polylines s0) s0 = Inr s1"
    by (rule first_tick_returns[OF init]) (simp_all add: newService_def)
  then obtain s1 where tick: "updatePositions (polylines s0) s0 = Inr s1" by blast
  have T: "0 < trackedAssets (config s0)" and ps: "0 < pageSize (config s0)"
    and n: "cycleLength (config s0) = 3" and fits: "pageFitsArray (config s0)"
    and exact: "exactPaging (config s0)"
    by (simp_all add: cfg0 claimed_config_def cycleLength_def pageFitsArray_def
          exactPaging_def)
  have cycle: "map_sum id snd (requests k s0) = Inr (s1\<lparr>page := k mod 3\<rparr>)"
    if "1 \<le> k" "k \<le> 3" for k
    using one_tick_per_cycle[OF T ps page0, of k] that fits exact n tick by simp
  have counter: "numCyclesSinceLastActiveUpdate s1 \<noteq> numCyclesSinceLastActiveUpdate s0"
    using one_tick_per_cycle[OF T ps page0, of 1] n tick by auto
  from cycle[of 1] cycle[of 2] cycle[of 3] counter init T ps page0 n tick fits exact
  show "\<exists>s0 s1. initialize [[stub]] (newService claimed_config (\<lambda>_. 0)) = Inr s0
     \<and> 0 < trackedAssets (config s0) \<and> 0 < pageSize (config s0) \<and> page s0 = 0
     \<and> pageFitsArray (config s0) \<and> exactPaging (config s0)
     \<and> cycleLength (config s0) = 3
     \<and> updatePositions (polylines s0) s0 = Inr s1
     \<and> map_sum id snd (requests 1 s0) = Inr (s1\<lparr>page := 1\<rparr>)
     \<and> map_sum id snd (requests 2 s0) = Inr (s1\<lparr>page := 2\<rparr>)
     \<and> map_sum id snd (requests 3 s0) = Inr (s1\<lparr>page := 0\<rparr>)
     \<and> numCyclesSinceLastActiveUpdate s1 \<noteq> numCyclesSinceLastActiveUpdate s0"
    by (intro exI[of _ s0] exI[of _ s1]) simp
next
  show big: "\<not> pageFitsArray oversized_config"
    by (simp add: pageFitsArray_def oversized_config_def)
  let ?s = "newService oversized_config (\<lambda>_. 0)"
  have "0 < trackedAssets (config ?s)" "0 < pageSize (config ?s)" "page ?s = 0"
    by (simp_all add: newService_def oversized_config_def)
  from one_tick_per_cycle[OF this, of 1] big
  show "next_features ?s = Inl RangeError"
    by (simp add: newService_def)
qed

subsection \<open>C7: the tracks a feature receives\<close>

text \<open>
  C7 (as amended). For every call of \<open>initialize\<close> that returns, and every feature of
  its input: the call appends the tracks it places to the tracks of the service, and
  the number of tracks it places on the feature is at most the quota
  \<open>max(1, floor(T * featureVertices / totalVertices))\<close> (the quota is 0 when no feature
  has a vertex). A feature on which it places none although the quota is positive was
  not reached: the call has placed \<open>T\<close> tracks or more on the features before it. A
  feature on which it places some but fewer than the quota is one where
  \<open>_getNextTrackStart\<close> returned \<open>null\<close> after the last of them: the start of that track
  plus the distance between starts is not below the last vertex of its path, and the
  path is the last one of the feature or the path after it has fewer than 2 vertices.
\<close>

theorem tracks_per_feature:
  assumes "initialize features s0 = Inr s" and "f < length features"
  shows "(let placed = placedTracks s0 s;
              numberOfVertices = getNumberOfVertices (features ! f);
              totalVertices = sumPolylineVertices features;
              quota = (if totalVertices = 0 then 0
                       else max 1 ((trackedAssets (config s0) * numberOfVertices)
                                     div totalVertices));
              spacing = vertexNumBetweenTracks numberOfVertices quota;
              onFeature = filter (\<lambda>t. t_featureIndex t = f) placed
          in trackInfos s = trackInfos s0 @ placed
             \<and> tracksOn f placed \<le> quota
             \<and> (tracksOn f placed = 0 \<longrightarrow> quota = 0 \<or>
                  trackedAssets (config s0)
                    \<le> length (filter (\<lambda>t. t_featureIndex t < f) placed))
             \<and> (0 < tracksOn f placed \<longrightarrow> tracksOn f placed < quota \<longrightarrow>
                  getNextTrackStart (features ! f) spacing
                    (t_pathIndex (last onFeature)) (t_vertexIndex (last onFeature))
                  = Inr None
                  \<and> \<not> int (spacing + t_vertexIndex (last onFeature))
                         < int (length (features ! f ! t_pathIndex (last onFeature))) - 1
                  \<and> (length (features ! f) \<le> t_pathIndex (last onFeature) + 1
                       \<or> length (features ! f ! (t_pathIndex (last onFeature) + 1)) < 2)))"
proof -
  have quota: "numOfTracksPerFeature T n S = (if S = 0 then 0 else max 1 ((T * n) div S))"
    for T n S by (simp add: numOfTracksPerFeature_div max.commute)
  have none: "\<not> int (spacing + v) < int (length (polyline ! p)) - 1
      \<and> (length polyline \<le> p + 1 \<or> length (polyline ! (p + 1)) < 2)"
    if "getNextTrackStart polyline spacing p v = Inr None" and "p < length polyline"
    for polyline spacing p v
    using that by (auto simp: getNextTrackStart_def nth_opt_def split: if_splits)
  from initialize_result[OF assms(1)] obtain ts where
    ts: "trackInfos s = trackInfos s0 @ ts"
    and placed: "\<forall>t\<in>set ts. t_featureIndex t < length features
        \<and> placedOn (features ! t_featureIndex t) (distStep (config s0)) (t_featureIndex t) t"
    and each: "\<forall>f. f < length features \<longrightarrow>
            (let numberOfVertices = getNumberOfVertices (features ! f);
                 numOfTracks = numOfTracksPerFeature (trackedAssets (config s0))
                                 numberOfVertices (sumPolylineVertices features);
                 spacing = vertexNumBetweenTracks numberOfVertices numOfTracks;
                 tf = filter (\<lambda>t. t_featureIndex t = f) ts
             in length tf \<le> numOfTracks
                \<and> (tf = [] \<longrightarrow> numOfTracks = 0 \<or>
                     trackedAssets (config s0)
                       \<le> length (filter (\<lambda>t. t_featureIndex t < f) ts))
                \<and> (tf \<noteq> [] \<longrightarrow> length tf < numOfTracks \<longrightarrow>
                     getNextTrackStart (features ! f) spacing
                       (t_pathIndex (last tf)) (t_vertexIndex (last tf)) = Inr None))"
    by blast
  have pl: "placedTracks s0 s = ts" by (simp add: placedTracks_def ts)
  let ?tf = "filter (\<lambda>t. t_featureIndex t = f) ts"
  have inpath: "t_pathIndex (last ?tf) < length (features ! f)" if "?tf \<noteq> []"
  proof -
    from last_in_set[OF that] have "last ?tf \<in> set ts" and "t_featureIndex (last ?tf) = f"
      by auto
    with placed show ?thesis by (auto simp: placedOn_def inBounds_def)
  qed
  from each[rule_format, OF assms(2)] show ?thesis
    unfolding pl tracksOn_def quota Let_def
    using none[of "features ! f" _ "t_pathIndex (last ?tf)" "t_vertexIndex (last ?tf)"] inpath
    by (auto simp: ts)
qed

text \<open>
  The claim as it was stated fails on \<open>crowded_features\<close> with \<open>trackedAssets = 10\<close>:
  the allocation places 10 tracks, so the count is not short of \<open>T\<close>, and the first
  feature, whose quota is \<open>max(1, floor(10 * 15 / 25)) = 6\<close>, receives 5 tracks.
\<close>

theorem tracks_per_feature_counterexample:
  "map_sum id (\<lambda>s. (length (trackInfos s) < trackedAssets crowded_config,
                     tracksOn 0 (trackInfos s)))
     (initialize crowded_features (newService crowded_config (\<lambda>_. 0))) = Inr (False, 5)
   \<and> max 1 ((trackedAssets crowded_config * getNumberOfVertices (crowded_features ! 0))
               div sumPolylineVertices crowded_features) = 6"
  by (simp add: eval_allocate eval_next eval_crowded)

text \<open>
  The theorem at that input, for the first feature: its 5 tracks start the 5 paths,
  and after the last one, at vertex 0 of path 4, \<open>_getNextTrackStart\<close> with the
  distance 2 between starts finds no further start.
\<close>

theorem tracks_per_feature_witness:
  "initialize crowded_features (newService crowded_config (\<lambda>_. 0))
     = Inr (projr (initialize crowded_features (newService crowded_config (\<lambda>_. 0))))
   \<and> 0 < length crowded_features
   \<and> tracksOn 0 (placedTracks (newService crowded_config (\<lambda>_. 0))
        (projr (initialize crowded_features (newService crowded_config (\<lambda>_. 0))))) = 5
   \<and> getNextTrackStart (crowded_features ! 0) 2 4 0 = Inr None"
proof -
  define s0 where "s0 = newService crowded_config (\<lambda>_. 0)"
  define s where "s = projr (initialize crowded_features s0)"
  have init: "initialize crowded_features s0 = Inr s"
    unfolding s_def s0_def by (simp add: eval_allocate eval_crowded)
  have empty: "trackInfos s0 = []" by (simp add: s0_def newService_def)
  have len: "0 < length crowded_features" by (simp add: crowded_features_def)
  have on0: "filter (\<lambda>t. t_featureIndex t = 0) (trackInfos s) =
      map (\<lambda>p. \<lparr>t_featureIndex = 0, t_pathIndex = p, t_vertexIndex = 0,
                  t_distanceToNextVertex = 1, t_accumulatedDistance = 0,
                  t_speed = 0.02\<rparr>) [0, 1, 2, 3, 4]"
    unfolding s_def s0_def by (simp add: eval_allocate eval_crowded)
  have cfg: "trackedAssets (config s0) = 10" by (simp add: s0_def newService_def crowded_config_def)
  have nv: "getNumberOfVertices (crowded_features ! 0) = 15"
    "sumPolylineVertices crowded_features = 25"
    by (simp_all add: eval_crowded getNumberOfVertices_def sumPolylineVertices_def)
  from tracks_per_feature[OF init len]
  have "tracksOn 0 (placedTracks s0 s) = 5
      \<and> getNextTrackStart (crowded_features ! 0) 2 4 0 = Inr None"
    by (simp add: Let_def tracksOn_def placedTracks_def empty on0 cfg nv
          vertexNumBetweenTracks_div)
  then show ?thesis using init len unfolding s_def s0_def by simp
qed

subsection \<open>C8: the example of the specification\<close>

text \<open>
  C8 (as amended). With \<open>trackedAssets = 1\<close> and \<open>distStep = 0.5\<close> on the path
  \<open>(0,0), (1,0), (1,1)\<close>: the first tick moves the track to \<open>(0.5, 0)\<close> and is the tick
  that triggers the transition to the segment from \<open>(1,0)\<close> to \<open>(1,1)\<close> with the
  accumulated distance reset to 0, because the step after it would reach the end of
  the first segment. The second tick moves the track to \<open>(1, 0.5)\<close>, half way along
  that second segment, and wraps it to the segment from \<open>(0,0)\<close> to \<open>(1,0)\<close>.
\<close>

theorem example_two_ticks:
  "map_sum id (\<lambda>(pages, s).
       (map (map (map_option position)) pages,
        map (\<lambda>t. (currentSegment corner_features t, t_accumulatedDistance t)) (trackInfos s)))
     (session unit_config rnd corner_features 1)
   = Inr ([[Some (Some (1 / 2), Some 0)]], [(Some ((1, 0), (1, 1)), 0)])
   \<and> map_sum id (\<lambda>(pages, s).
       (map (map (map_option position)) pages,
        map (\<lambda>t. (currentSegment corner_features t, t_accumulatedDistance t)) (trackInfos s)))
     (session unit_config rnd corner_features 2)
   = Inr ([[Some (Some (1 / 2), Some 0)], [Some (Some 1, Some (1 / 2))]],
          [(Some ((0, 0), (1, 0)), 0)])"
  by (simp add: eval_allocate eval_update eval_next unit_config_def corner_features_def
        numeral_2_eq_2)

text \<open>
  The claim as it was stated fails: after the first tick the track is no longer on the
  segment from \<open>(0,0)\<close> to \<open>(1,0)\<close>, the second tick does not report \<open>(1, 0)\<close>, and
  after the second tick the track is not on the segment from \<open>(1,0)\<close> to \<open>(1,1)\<close>.
\<close>

theorem example_two_ticks_counterexample:
  "map_sum id (\<lambda>(pages, s). map (currentSegment corner_features) (trackInfos s))
     (session unit_config (\<lambda>_. 0) corner_features 1) \<noteq> Inr [Some ((0, 0), (1, 0))]
   \<and> map_sum id (\<lambda>(pages, s). map (map (map_option position)) pages)
       (session unit_config (\<lambda>_. 0) corner_features 2)
     \<noteq> Inr [[Some (Some (1 / 2), Some 0)], [Some (Some 1, Some 0)]]
   \<and> map_sum id (\<lambda>(pages, s). map (currentSegment corner_features) (trackInfos s))
       (session unit_config (\<lambda>_. 0) corner_features 2) \<noteq> Inr [Some ((1, 0), (1, 1))]"
  by (simp add: eval_allocate eval_update eval_next unit_config_def corner_features_def
        numeral_2_eq_2)

subsection \<open>C9: requests before the initialization\<close>

text \<open>
  C9 (as amended). \<open>next\<close> has no check that \<open>initialize\<close> was called. On a new service
  whose configuration has \<open>pageSize\<close> or \<open>trackedAssets\<close> at most \<open>2 ^ 32 - 1\<close> and
  \<open>trackedAssets\<close> at most \<open>2 ^ 53\<close>, for every number \<open>n\<close> of calls, each of the \<open>n\<close> calls returns a result and none throws; every
  entry of every returned \<open>features\<close> array is \<open>null\<close>, and the service still has no track
  and no observation. When both \<open>pageSize\<close> and \<open>trackedAssets\<close> are above \<open>2 ^ 32 - 1\<close>,
  the first call throws the \<open>RangeError\<close> of \<open>new Array\<close>, as the call does on every
  service with that configuration at the page 0, initialized or not.
\<close>

theorem next_before_initialize_returns:
  "(pageFitsArray cfg \<longrightarrow> exactPaging cfg \<longrightarrow>
      (\<exists>pages s'. requests n (newService cfg rnd) = Inr (pages, s') \<and> length pages = n
         \<and> (\<forall>features\<in>set pages. \<forall>f\<in>set features. f = None)
         \<and> trackInfos s' = [] \<and> lastObservations s' = []))
   \<and> (\<not> pageFitsArray cfg \<longrightarrow>
        next_features (newService cfg rnd) = Inl RangeError
        \<and> (\<forall>s :: service.
              config s = cfg \<longrightarrow> page s = 0 \<longrightarrow> next_features s = Inl RangeError))"
proof (intro conjI impI allI)
  assume "pageFitsArray cfg"
  then have "emptyService (newService cfg rnd)"
    by (simp add: emptyService_def newService_def pageFitsArray_def)
  from requests_empty[OF this, of n]
  show "\<exists>pages s'. requests n (newService cfg rnd) = Inr (pages, s') \<and> length pages = n
         \<and> (\<forall>features\<in>set pages. \<forall>f\<in>set features. f = None)
         \<and> trackInfos s' = [] \<and> lastObservations s' = []"
    by (fastforce simp: emptyService_def)
next
  assume "\<not> pageFitsArray cfg"
  then show "next_features (newService cfg rnd) = Inl RangeError"
    by (intro next_features_too_long) (simp_all add: newService_def)
next
  fix s :: service
  assume "\<not> pageFitsArray cfg" and "config s = cfg" and "page s = 0"
  then show "next_features s = Inl RangeError"
    by (intro next_features_too_long) simp_all
qed

text \<open>
  The claim as it was stated fails for the default configuration: the first call of
  \<open>next\<close> on a new service returns 10000 \<open>null\<close> features.
\<close>

theorem next_before_initialize_returns_counterexample:
  "map_sum id fst (next_features (newService defaults (\<lambda>_. 0))) = Inr (replicate 10000 None)"
proof -
  have holes: "map (nth_opt ([] :: PointFeature list)) xs = replicate (length xs) None" for xs
    by (induction xs) (simp_all add: nth_opt_def)
  have "map (nth_opt ([] :: PointFeature list)) [0..<10000] = replicate 10000 None"
    unfolding holes by (simp only: length_upt diff_zero)
  moreover have "trackedAssets (config (newService defaults (\<lambda>_. 0))) \<le> 0xffffffff"
    by (simp add: newService_def defaults_def)
  ultimately show ?thesis
    unfolding next_features_eq[OF \<open>trackedAssets (config (newService defaults (\<lambda>_. 0)))
      \<le> 0xffffffff\<close>] Let_def
    by (simp add: updatePositions_no_tracks newService_def defaults_def del: upt_rec_numeral)
qed

text \<open>
  The theorem for two calls with 3 assets in pages of 2: a page of 2 \<open>null\<close>s, then
  an array of 3 \<open>null\<close>s (2 holes and the undefined observation 2). And for \<open>2 ^ 32\<close>
  assets in one page: the call throws.
\<close>

theorem next_before_initialize_returns_witness:
  "pageFitsArray paged_config \<and> exactPaging paged_config
   \<and> (\<exists>s'. requests 2 (newService paged_config (\<lambda>_. 0))
           = Inr ([[None, None], [None, None, None]], s'))
   \<and> \<not> pageFitsArray oversized_config
   \<and> next_features (newService oversized_config (\<lambda>_. 0)) = Inl RangeError"
proof (intro conjI)
  show fits: "pageFitsArray paged_config"
    by (simp add: pageFitsArray_def paged_config_def)
  show exact: "exactPaging paged_config"
    by (simp add: exactPaging_def paged_config_def)
  from next_before_initialize_returns[of paged_config 2 "\<lambda>_. 0"] fits exact
  obtain pages s' where r: "requests 2 (newService paged_config (\<lambda>_. 0)) = Inr (pages, s')"
    by blast
  have "map_sum id fst (requests 2 (newService paged_config (\<lambda>_. 0)))
      = Inr [[None, None], [None, None, None]]"
    by (simp add: numeral_2_eq_2 next_features_eq updatePositions_no_tracks newService_def
          paged_config_def nth_opt_def Let_def)
  with r show "\<exists>s'. requests 2 (newService paged_config (\<lambda>_. 0))
           = Inr ([[None, None], [None, None, None]], s')"
    by simp
next
  show big: "\<not> pageFitsArray oversized_config"
    by (simp add: pageFitsArray_def oversized_config_def)
  from next_before_initialize_returns[of oversized_config 0 "\<lambda>_. 0"] big
  show "next_features (newService oversized_config (\<lambda>_. 0)) = Inl RangeError"
    by blast
qed

subsection \<open>C10: the first path of a feature\<close>

text \<open>
  C10. \<open>_getNextTrackStart\<close> hands out a start only where the path has a next vertex:
  on the same path below its last vertex, or at vertex 0 of the next path when that
  path has at least 2 vertices. The first placement of a feature, at vertex 0 of path
  0, is made without such a check: when the feature has no path or its first path has
  fewer than 2 vertices, that placement reads a vertex that is not there and throws,
  and \<open>initialize\<close> throws for every input in which such a feature is processed (and
  some feature has a vertex, so that a placement is made at all). Conversely, when the
  first path of every processed feature has at least 2 vertices, \<open>initialize\<close> returns:
  no read is out of bounds.
\<close>

theorem first_path_is_not_checked:
  "(currentPath < length polyline \<longrightarrow>
      getNextTrackStart polyline spacing currentPath currentVertex
        = Inr (Some (nextPath, nextVertex)) \<longrightarrow>
      nextPath < length polyline \<and> nextVertex + 1 < length (polyline ! nextPath))
   \<and> (\<not> (0 < length polyline \<and> 2 \<le> length (polyline ! 0)) \<longrightarrow>
        placeTrack featureIndex polyline 0 0 trackIndex s = Inl TypeError)
   \<and> (processed features s0 f \<longrightarrow>
        \<not> (0 < length (features ! f) \<and> 2 \<le> length (features ! f ! 0)) \<longrightarrow>
        0 < sumPolylineVertices features \<longrightarrow>
        initialize features s0 = Inl TypeError)
   \<and> ((\<forall>f. processed features s0 f \<longrightarrow>
            0 < length (features ! f) \<and> 2 \<le> length (features ! f ! 0)) \<longrightarrow>
        (\<exists>s'. initialize features s0 = Inr s'))"
proof (intro conjI impI)
  assume "currentPath < length polyline"
    and "getNextTrackStart polyline spacing currentPath currentVertex
           = Inr (Some (nextPath, nextVertex))"
  then have "inBounds polyline nextPath nextVertex"
    by (rule_tac getNextTrackStart_cases[of currentPath polyline spacing currentVertex]) auto
  then show "nextPath < length polyline" "nextVertex + 1 < length (polyline ! nextPath)"
    by (simp_all add: inBounds_def)
next
  assume "\<not> (0 < length polyline \<and> 2 \<le> length (polyline ! 0))"
  then have "\<not> inBounds polyline 0 0" by (simp add: inBounds_first)
  then show "placeTrack featureIndex polyline 0 0 trackIndex s = Inl TypeError"
    by (rule placeTrack_error)
next
  assume "processed features s0 f"
    and "\<not> (0 < length (features ! f) \<and> 2 \<le> length (features ! f ! 0))"
    and "0 < sumPolylineVertices features"
  then show "initialize features s0 = Inl TypeError"
    unfolding processed_def initialize_allocate inBounds_first[symmetric]
    by (auto intro: allocate_unusable)
next
  assume usable: "\<forall>f. processed features s0 f \<longrightarrow>
            0 < length (features ! f) \<and> 2 \<le> length (features ! f ! 0)"
  show "\<exists>s'. initialize features s0 = Inr s'"
    unfolding initialize_allocate
  proof (rule allocate_usable[OF whileGuard.start])
    fix f trackIndex s
    assume "whileGuard features (sumPolylineVertices features) (trackedAssets (config s0))
              (s0\<lparr>polylines := Some features\<rparr>) f trackIndex s"
      and "trackIndex < trackedAssets (config s0)" and "f < length features"
    then have "processed features s0 f" unfolding processed_def by blast
    with usable show "inBounds (features ! f) 0 0" by (simp add: inBounds_first)
  qed
qed

text \<open>
  The theorem at concrete inputs: a next start on a path with a corner; a feature whose
  only path has one vertex, which is processed and makes \<open>initialize\<close> throw; and two
  features with \<open>trackedAssets = 1\<close>, where the second feature has a path of one
  vertex but is not processed, so that \<open>initialize\<close> returns.
\<close>

theorem first_path_is_not_checked_witness:
  "getNextTrackStart [[(0, 0), (1, 0), (1, 1)]] 1 0 0 = Inr (Some (0, 1))
   \<and> placeTrack 0 [[(0, 0)]] 0 0 0 (newService unit_config (\<lambda>_. 0)) = Inl TypeError
   \<and> processed [[[(0, 0)]]] (newService unit_config (\<lambda>_. 0)) 0
   \<and> initialize [[[(0, 0)]]] (newService unit_config (\<lambda>_. 0)) = Inl TypeError
   \<and> processed [[[(0, 0), (1, 0)]], [[(5, 5)]]] (newService unit_config (\<lambda>_. 0)) 0
   \<and> \<not> processed [[[(0, 0), (1, 0)]], [[(5, 5)]]] (newService unit_config (\<lambda>_. 0)) 1
   \<and> (\<exists>s'. initialize [[[(0, 0), (1, 0)]], [[(5, 5)]]] (newService unit_config (\<lambda>_. 0))
            = Inr s')"
proof -
  let ?s0 = "newService unit_config (\<lambda>_. 0)"
  let ?bad = "[[[(0, 0)]]] :: featureSet"
  let ?good = "[[[(0, 0), (1, 0)]], [[(5, 5)]]] :: featureSet"
  have T: "trackedAssets (config ?s0) = 1"
    by (simp add: newService_def unit_config_def)
  have sums: "0 < sumPolylineVertices ?bad" "0 < sumPolylineVertices ?good"
    by (simp_all add: sumPolylineVertices_def)
  have pb: "processed ?bad ?s0 0" and pg: "processed ?good ?s0 0"
    by (rule processed_first; simp add: T)+
  have only0: "f = 0" if "processed ?good ?s0 f" for f
    using processed_less[OF that sums(2)] T by simp
  have "getNextTrackStart [[(0, 0), (1, 0), (1, 1)]] 1 0 0 = Inr (Some (0, 1))"
    by (simp add: getNextTrackStart_def nth_opt_def)
  moreover have "placeTrack 0 [[(0, 0)]] 0 0 0 ?s0 = Inl TypeError"
    using first_path_is_not_checked[where polyline = "[[(0, 0)]]"] by simp
  moreover have "initialize ?bad ?s0 = Inl TypeError"
    using first_path_is_not_checked[where features = ?bad and ?s0.0 = ?s0 and f = 0] pb sums
    by simp
  moreover have "\<not> processed ?good ?s0 1"
    using only0[of 1] by auto
  moreover have "\<exists>s'. initialize ?good ?s0 = Inr s'"
  proof -
    have "\<forall>f. processed ?good ?s0 f \<longrightarrow>
            0 < length (?good ! f) \<and> 2 \<le> length (?good ! f ! 0)"
    proof (intro allI impI)
      fix f
      assume "processed ?good ?s0 f"
      then have "f = 0" by (rule only0)
      then show "0 < length (?good ! f) \<and> 2 \<le> length (?good ! f ! 0)" by simp
    qed
    then show ?thesis
      by (rule first_path_is_not_checked[THEN conjunct2, THEN conjunct2, THEN conjunct2,
            THEN mp])
  qed
  ultimately show ?thesis using pb pg by blast
qed

end
